theory Spec2Isabelle
  imports Main "HOL-Library.AList" "HOL-Library.Char_ord" "HOL-Library.List_Lexorder"
begin

section \<open>The synchronized table (class SyncTable) and its registry\<close>

text \<open>
  The model follows the class \<^verbatim>\<open>SyncTable\<close> and the functions \<^verbatim>\<open>sync_table\<close> and
  \<^verbatim>\<open>global_cache_decref\<close> of \<^verbatim>\<open>client-side-throttle.ts\<close>.

  Conventions.
  \<^item> A source name that starts with an underscore is written with the prefix \<open>u_\<close>
    (\<^verbatim>\<open>_handle_new_val\<close> is \<open>u_handle_new_val\<close>, \<^verbatim>\<open>__save\<close> is \<open>uu_save\<close>); the method
    \<^verbatim>\<open>set\<close> is \<open>set_record\<close> and the property \<^verbatim>\<open>id\<close> is \<open>feed_id\<close>.
  \<^item> The class reads several instance properties under a name that no code assigns:
    \<^verbatim>\<open>_value_local\<close>, \<^verbatim>\<open>_value_server\<close>, \<^verbatim>\<open>_state\<close>, \<^verbatim>\<open>_client\<close>, \<^verbatim>\<open>_plug\<close>,
    \<^verbatim>\<open>_cache_key\<close> and \<^verbatim>\<open>client_query\<close>, while it assigns \<^verbatim>\<open>value_local\<close>,
    \<^verbatim>\<open>value_server\<close>, \<^verbatim>\<open>state\<close>, \<^verbatim>\<open>client\<close>, \<^verbatim>\<open>plug\<close>, \<^verbatim>\<open>cache_key\<close> and
    \<^verbatim>\<open>_client_query\<close>. Each name that is read is a field of its own in the model; a
    property that no code assigns is undefined (\<open>None\<close>) in every instance that the
    constructor builds. (\<^verbatim>\<open>_debounce_interval\<close>, which \<^verbatim>\<open>save\<close> hands to
    \<^verbatim>\<open>misc.async_debounce\<close>, is of this kind too; the model does not hold the interval.)
  \<^item> A function in which the source can throw returns a sum: \<open>Inl\<close> carries the name of
    the exception and the state at the moment it is thrown, \<open>Inr\<close> the result.
  \<^item> An immutable.js map is an association list; \<open>map_of\<close> reads it, \<open>AList.update\<close> and
    \<open>AList.delete\<close> are \<^verbatim>\<open>set\<close> and \<^verbatim>\<open>delete\<close>, and \<^verbatim>\<open>equals\<close> compares the maps the
    lists denote, whatever the order of their entries.
  \<^item> Emitted events, calls of the transport and invocations of callbacks are appended
    to the field \<open>trace\<close> of the state, in the order in which the source performs them.
    What the source writes to the console is left out.
  \<^item> A function that waits for the transport is cut where it waits: the part that runs
    when the answer arrives is a function of its own (\<open>save_reply\<close>), and what it needs
    from the call is kept in the state.
\<close>

subsection \<open>Values, records, keys\<close>

text \<open>
  Values are JSON values. A nested object is held in one fixed order of its keys, so that
  equality of values is \<^verbatim>\<open>immutable.is\<close>.
\<close>

datatype jsval = JNull | JBool bool | JNum int | JStr string
  | JArr "jsval list" | JObj "(string \<times> jsval) list"

type_synonym jsrec = "(string \<times> jsval) list"

text \<open>
  A key of an immutable.js map is any value: a string, a number, a boolean or
  \<^verbatim>\<open>undefined\<close>; two keys of different types are different keys. A property name of a
  plain object is always a string.
\<close>

datatype key = KUndef | KStr string | KNum int | KBool bool

type_synonym table = "(key \<times> jsrec) list"

text \<open>The entries of a map, one for each key, in the order of first insertion.\<close>

definition entries :: "('k \<times> 'v) list \<Rightarrow> ('k \<times> 'v) list" where
  "entries al = AList.clearjunk al"

text \<open>\<^verbatim>\<open>a.equals(b)\<close> on two records, and on a record and a possibly undefined one.\<close>

definition rec_equals :: "jsrec \<Rightarrow> jsrec \<Rightarrow> bool" where
  "rec_equals a b \<longleftrightarrow> (\<forall>k \<in> set (map fst a @ map fst b). map_of a k = map_of b k)"

fun equals_opt :: "jsrec \<Rightarrow> jsrec option \<Rightarrow> bool" where
  "equals_opt a None = False"
| "equals_opt a (Some b) = rec_equals a b"

text \<open>\<^verbatim>\<open>immutable.is(a, b)\<close> where either side may be undefined.\<close>

fun is_opt :: "jsrec option \<Rightarrow> jsrec option \<Rightarrow> bool" where
  "is_opt None None = True"
| "is_opt (Some a) (Some b) = rec_equals a b"
| "is_opt _ _ = False"

text \<open>\<^verbatim>\<open>a.equals(b)\<close> on two tables.\<close>

definition tbl_equals :: "table \<Rightarrow> table \<Rightarrow> bool" where
  "tbl_equals a b \<longleftrightarrow> (\<forall>k \<in> set (map fst a @ map fst b). is_opt (map_of a k) (map_of b k))"

subsection \<open>The table's configuration\<close>

text \<open>
  What \<^verbatim>\<open>init_query\<close> and \<^verbatim>\<open>init_throttle_changes\<close> compute from the schema, and the
  library functions the class calls: \<^verbatim>\<open>json-stable-stringify\<close>, \<^verbatim>\<open>JSON.parse\<close> (\<open>None\<close>
  where it throws \<^verbatim>\<open>SyntaxError\<close>), \<^verbatim>\<open>keySeq().first()\<close> of an immutable.js map (\<open>KUndef\<close>
  is \<^verbatim>\<open>undefined\<close>, the answer for the empty map) and \<^verbatim>\<open>mergeDeep\<close>. The field
  \<open>u_client_query_set\<close> is \<^verbatim>\<open>_client_query.set.fields\<close>: it is \<open>None\<close> when the schema has no
  \<^verbatim>\<open>set\<close>, and maps a settable field to the function that computes it, if the schema
  gives one.
\<close>

type_synonym set_fields_schema = "(string \<times> (jsrec \<Rightarrow> jsval) option) list"

record config =
  table_name :: string
  primary_keys :: "string list"
  set_fields :: "string list"
  required_set_fields :: "string list"
  u_client_query_set :: "set_fields_schema option"
  throttle_changes :: "nat option"
  json_stable_stringify :: "jsval \<Rightarrow> string"
  json_parse :: "string \<Rightarrow> jsval option"
  key_seq_first :: "table \<Rightarrow> key"
  merge_deep :: "jsrec \<Rightarrow> jsrec \<Rightarrow> jsrec"
text \<open>
  \<^verbatim>\<open>to_key\<close>: a value of type object (an array, an object, \<^verbatim>\<open>null\<close>) is stringified, any
  other value is returned as it is.
\<close>

fun to_key :: "config \<Rightarrow> jsval \<Rightarrow> key" where
  "to_key cfg (JStr s) = KStr s"
| "to_key cfg (JNum n) = KNum n"
| "to_key cfg (JBool b) = KBool b"
| "to_key cfg v = KStr (json_stable_stringify cfg v)"

text \<open>The values of the primary keys of a record; \<open>None\<close> when one is missing or null.\<close>

fun compound_values :: "jsrec \<Rightarrow> string list \<Rightarrow> jsval list option" where
  "compound_values obj [] = Some []"
| "compound_values obj (pk # pks) =
     (case map_of obj pk of
        None \<Rightarrow> None
      | Some JNull \<Rightarrow> None
      | Some a \<Rightarrow> (case compound_values obj pks of None \<Rightarrow> None | Some v \<Rightarrow> Some (a # v)))"

text \<open>\<^verbatim>\<open>_key\<close>, as \<^verbatim>\<open>init_query\<close> defines it; \<open>KUndef\<close> is \<^verbatim>\<open>undefined\<close>.\<close>

definition u_key :: "config \<Rightarrow> jsrec option \<Rightarrow> key" where
  "u_key cfg obj =
     (case obj of
        None \<Rightarrow> KUndef
      | Some r \<Rightarrow>
          (case primary_keys cfg of
             [pk] \<Rightarrow> (case map_of r pk of None \<Rightarrow> KUndef | Some a \<Rightarrow> to_key cfg a)
           | pks \<Rightarrow> (case compound_values r pks of
                        None \<Rightarrow> KUndef
                      | Some v \<Rightarrow> to_key cfg (JArr v))))"

text \<open>The property name under which a plain object stores a key.\<close>

fun prop_name :: "config \<Rightarrow> key \<Rightarrow> string" where
  "prop_name cfg KUndef = ''undefined''"
| "prop_name cfg (KStr s) = s"
| "prop_name cfg (KNum n) = json_stable_stringify cfg (JNum n)"
| "prop_name cfg (KBool b) = (if b then ''true'' else ''false'')"

subsection \<open>State, callbacks and the trace\<close>

datatype conn_state = Connecting | Connected | Disconnected | Reconnecting | Closed

text \<open>
  A callback is one given by a caller, or the function that \<^verbatim>\<open>_save\<close> wraps around
  its own callback to clear \<^verbatim>\<open>__is_saving\<close>.
\<close>

datatype callback = User_cb nat | Saving_done "callback option"

datatype event =
    Before_change
  | Change "key list"
  | Conflict jsrec jsrec
  | Saved "jsrec list"
  | Connected_event
  | Set_query "jsrec list"
  | Called nat "string option"
  | Async_debounce "callback option"
  | Alert_clock
  | Plug_close
  | Remove_disconnect_listener
  | Remove_all_listeners
  | Query_cancel string
  | Cache_delete string

text \<open>
  What the callback of the transport write keeps from the call of \<^verbatim>\<open>__save\<close> that issued
  it: \<^verbatim>\<open>changed\<close>, \<^verbatim>\<open>at_start\<close>, \<^verbatim>\<open>saved_objs\<close> and \<^verbatim>\<open>cb\<close>.
\<close>

record save_request =
  sr_changed :: "(string \<times> jsrec \<times> jsrec option) list"
  sr_at_start :: table
  sr_saved_objs :: "jsrec list"
  sr_cb :: "callback option"

text \<open>
  The instance. The first group of fields are the properties that the class assigns. The
  second group are the properties that it reads and no code assigns: \<open>u_value_local\<close>,
  \<open>u_value_server\<close>, \<open>u_state\<close> and \<open>u_cache_key\<close> are \<^verbatim>\<open>_value_local\<close>, \<^verbatim>\<open>_value_server\<close>,
  \<^verbatim>\<open>_state\<close> and \<^verbatim>\<open>_cache_key\<close>; \<open>client_query\<close> is \<^verbatim>\<open>client_query\<close>, whose \<^verbatim>\<open>set\<close> is
  absent (\<open>Some None\<close>) or has the settable fields; of \<^verbatim>\<open>_client\<close> and \<^verbatim>\<open>_plug\<close> only
  their presence matters.
\<close>

record synctable =
  state :: conn_state
  value_local :: "table option"
  value_server :: "table option"
  feed_id :: "string option"
  is_saving :: bool
  reference_count :: "int option"
  connected_save_cbs :: "callback option list"
  all_changed_keys :: "string list"
  throttle_idle :: bool
  throttle_pending :: bool
  in_flight :: "save_request list"
  trace :: "event list"
  u_value_local :: "table option"
  u_value_server :: "table option"
  u_state :: "conn_state option"
  u_cache_key :: "string option"
  client_query :: "set_fields_schema option option"
  u_client :: "unit option"
  u_plug :: "unit option"

text \<open>
  The result of a function that can throw: the name of the exception and the state at
  that moment, or the value it returns.
\<close>

type_synonym 'a result = "(string \<times> synctable) + 'a"

definition emit :: "event \<Rightarrow> synctable \<Rightarrow> synctable" where
  "emit e s = s\<lparr>trace := trace s @ [e]\<rparr>"

fun invoke :: "callback option \<Rightarrow> string option \<Rightarrow> synctable \<Rightarrow> synctable" where
  "invoke None err s = s"
| "invoke (Some (User_cb n)) err s = emit (Called n err) s"
| "invoke (Some (Saving_done cb)) err s = invoke cb err (s\<lparr>is_saving := False\<rparr>)"

subsection \<open>Change notifications\<close>

text \<open>
  \<^verbatim>\<open>do_emit_changes\<close>, the function that \<^verbatim>\<open>init_throttle_changes\<close> hands to \<^verbatim>\<open>throttle\<close>:
  it emits the keys gathered so far, also when there are none, and forgets them.
\<close>

definition do_emit_changes :: "synctable \<Rightarrow> synctable" where
  "do_emit_changes s = (emit (Change (map KStr (all_changed_keys s))) s)\<lparr>all_changed_keys := []\<rparr>"

text \<open>
  The wrapper that \<^verbatim>\<open>throttle\<close> of underscore returns, without its clock: a call in an
  idle period runs the function at once and opens a waiting period; a call in a waiting
  period asks for one run at its end. \<open>throttle_wait_over\<close> is the end of a waiting period.
\<close>

definition throttled_emit :: "synctable \<Rightarrow> synctable" where
  "throttled_emit s =
     (if throttle_idle s then do_emit_changes (s\<lparr>throttle_idle := False\<rparr>)
      else s\<lparr>throttle_pending := True\<rparr>)"

definition throttle_wait_over :: "synctable \<Rightarrow> synctable" where
  "throttle_wait_over s =
     (if throttle_pending s then do_emit_changes (s\<lparr>throttle_pending := False\<rparr>)
      else s\<lparr>throttle_idle := True\<rparr>)"

text \<open>
  \<^verbatim>\<open>emit_change\<close>: without throttling the keys are emitted as they are; with it they are
  recorded as property names of \<^verbatim>\<open>all_changed_keys\<close>.
\<close>

definition record_key :: "string \<Rightarrow> string list \<Rightarrow> string list" where
  "record_key k ks = (if k \<in> set ks then ks else ks @ [k])"

definition emit_change :: "config \<Rightarrow> key list \<Rightarrow> synctable \<Rightarrow> synctable" where
  "emit_change cfg changed_keys s =
     (case throttle_changes cfg of
        None \<Rightarrow> emit (Change changed_keys) s
      | Some w \<Rightarrow>
          if w = 0 then emit (Change changed_keys) s
          else throttled_emit
                 (s\<lparr>all_changed_keys :=
                      fold (\<lambda>k ks. record_key (prop_name cfg k) ks) changed_keys
                        (all_changed_keys s)\<rparr>))"

subsection \<open>Requesting a save\<close>

text \<open>
  \<^verbatim>\<open>save\<close>: the request is refused unless the table is connected, kept for later while
  the values are not known, and otherwise handed to \<^verbatim>\<open>misc.async_debounce\<close>, which calls
  \<^verbatim>\<open>_save\<close> later and keeps its own state in \<^verbatim>\<open>_save_debounce\<close>.
\<close>

definition save :: "callback option \<Rightarrow> synctable \<Rightarrow> synctable" where
  "save cb s =
     (if state s = Closed then invoke cb (Some ''closed'') s
      else if state s \<noteq> Connected then invoke cb (Some ''not connected'') s
      else if value_server s = None \<or> value_local s = None
        then s\<lparr>connected_save_cbs := connected_save_cbs s @ [cb]\<rparr>
      else emit (Async_debounce cb) s)"

subsection \<open>The three-way merge\<close>

text \<open>
  The two loops of \<^verbatim>\<open>_handle_new_val\<close> over the fields of \<^verbatim>\<open>new_val\<close> and of \<^verbatim>\<open>server\<close>.
\<close>

definition server_get :: "jsrec option \<Rightarrow> string \<Rightarrow> jsval option" where
  "server_get server k = (case server of None \<Rightarrow> None | Some r \<Rightarrow> map_of r k)"

definition apply_changed :: "jsrec \<Rightarrow> jsrec option \<Rightarrow> jsrec \<Rightarrow> jsrec" where
  "apply_changed new_val server local_val =
     fold (\<lambda>(k, v) l. if Some v \<noteq> server_get server k then AList.update k v l else l)
       (entries new_val) local_val"

definition drop_removed :: "jsrec \<Rightarrow> jsrec option \<Rightarrow> jsrec \<Rightarrow> jsrec" where
  "drop_removed new_val server local_val =
     (case server of
        None \<Rightarrow> local_val
      | Some r \<Rightarrow>
          fold (\<lambda>(k, v) l. if map_of new_val k = None then AList.delete k l else l)
            (entries r) local_val)"

definition merge_record :: "jsrec \<Rightarrow> jsrec option \<Rightarrow> jsrec \<Rightarrow> jsrec" where
  "merge_record new_val server local_val =
     drop_removed new_val server (apply_changed new_val server local_val)"

text \<open>
  \<^verbatim>\<open>_handle_new_val(val, changed_keys)\<close>: the result is the conflict flag, the extended
  \<^verbatim>\<open>changed_keys\<close> and the new state. Both callers test that the two values are set.
\<close>

definition u_handle_new_val ::
  "config \<Rightarrow> jsrec \<Rightarrow> key list \<Rightarrow> synctable \<Rightarrow> bool \<times> key list \<times> synctable" where
  "u_handle_new_val cfg val changed_keys s =
     (case (value_local s, value_server s) of
        (Some L, Some S) \<Rightarrow>
          (let key = u_key cfg (Some val);
               new_val = val;
               local_val = map_of L key;
               (conflict, changed_keys', s') =
                 (if \<not> equals_opt new_val local_val then
                    (case local_val of
                       None \<Rightarrow>
                         (False, changed_keys @ [key],
                          s\<lparr>value_local := Some (AList.update key new_val L)\<rparr>)
                     | Some l \<Rightarrow>
                         (let server = map_of S key;
                              l' = merge_record new_val server l;
                              (ck, s1) =
                                (if \<not> rec_equals l' l
                                 then (changed_keys @ [key],
                                       s\<lparr>value_local := Some (AList.update key l' L)\<rparr>)
                                 else (changed_keys, s))
                          in if \<not> rec_equals l' new_val
                             then (True, ck, emit (Conflict new_val l') s1)
                             else (False, ck, s1)))
                  else (False, changed_keys, s))
           in (conflict, changed_keys',
               s'\<lparr>value_server := Some (AList.update key new_val S)\<rparr>))
      | _ \<Rightarrow> (False, changed_keys, s))"

subsection \<open>A full snapshot: \<^verbatim>\<open>_update_all\<close>\<close>

text \<open>
  The plain object \<^verbatim>\<open>x\<close> built from the array of records, and \<^verbatim>\<open>immutable.fromJS(x)\<close>,
  whose keys are the property names of \<^verbatim>\<open>x\<close>. The properties are listed in the order of
  their insertion.
\<close>

definition restructure :: "config \<Rightarrow> jsrec list \<Rightarrow> (string \<times> jsrec) list" where
  "restructure cfg v =
     fold (\<lambda>y x. AList.update (prop_name cfg (u_key cfg (Some y))) y x) v []"

definition fromJS :: "(string \<times> jsrec) list \<Rightarrow> table" where
  "fromJS x = map (\<lambda>(k, r). (KStr k, r)) x"

text \<open>
  The body of the loop over the local keys (\<^verbatim>\<open>DELETE or CHANGED\<close>). The key comes from
  \<^verbatim>\<open>value_local\<close>, so the local value read in the second branch is defined.
\<close>

definition reconcile_key ::
  "config \<Rightarrow> (string \<times> jsrec) list \<Rightarrow> key \<Rightarrow>
     key list \<times> bool \<times> synctable \<Rightarrow> key list \<times> bool \<times> synctable" where
  "reconcile_key cfg x key = (\<lambda>(changed_keys, conflict, s).
     (case map_of x (prop_name cfg key) of
        Some y \<Rightarrow>
          (let (c, ck, s') = u_handle_new_val cfg y changed_keys s
           in (ck, conflict \<or> c, s'))
      | None \<Rightarrow>
          (case (value_local s, value_server s) of
             (Some L, Some S) \<Rightarrow>
               (case map_of L key of
                  Some l \<Rightarrow>
                    if equals_opt l (map_of S key)
                    then (changed_keys @ [key], conflict,
                          s\<lparr>value_local := Some (AList.delete key L)\<rparr>)
                    else (changed_keys, True, s)
                | None \<Rightarrow> (changed_keys, conflict, s))
           | _ \<Rightarrow> (changed_keys, conflict, s))))"

text \<open>The body of the loop over the keys of \<^verbatim>\<open>x\<close> (\<^verbatim>\<open>NEWLY ADDED\<close>).\<close>

definition add_new ::
  "string \<times> jsrec \<Rightarrow> key list \<times> synctable \<Rightarrow> key list \<times> synctable" where
  "add_new = (\<lambda>(key, val) (changed_keys, s).
     (case value_local s of
        Some L \<Rightarrow>
          if map_of L (KStr key) = None
          then (changed_keys @ [KStr key],
                s\<lparr>value_local := Some (AList.update (KStr key) val L)\<rparr>)
          else (changed_keys, s)
      | None \<Rightarrow> (changed_keys, s)))"

text \<open>
  The part of \<^verbatim>\<open>_update_all\<close> that works out what changes: the result is
  \<^verbatim>\<open>changed_keys\<close>, \<^verbatim>\<open>conflict\<close>, \<^verbatim>\<open>first_connect\<close> and the state.
\<close>

definition update_all_merge ::
  "config \<Rightarrow> (string \<times> jsrec) list \<Rightarrow> synctable \<Rightarrow>
     key list \<times> bool \<times> bool \<times> synctable" where
  "update_all_merge cfg x s =
     (case (value_local s, value_server s) of
        (Some L, Some S) \<Rightarrow>
          (let (ck, conflict, s1) =
                 fold (reconcile_key cfg x) (map fst (entries L)) ([], False, s);
               (ck', s2) = fold add_new x (ck, s1)
           in (ck', conflict, False, s2))
      | _ \<Rightarrow>
          (map (\<lambda>(k, r). KStr k) x, False, True,
           s\<lparr>value_local := Some (fromJS x), value_server := Some (fromJS x)\<rparr>))"

definition u_update_all :: "config \<Rightarrow> jsrec list option \<Rightarrow> synctable \<Rightarrow> synctable" where
  "u_update_all cfg v s =
     (if state s = Closed then s
      else case v of
        None \<Rightarrow> s
      | Some recs \<Rightarrow>
          (let x = restructure cfg recs;
               (changed_keys, conflict, first_connect, s1) =
                 update_all_merge cfg x (emit Before_change s);
               s2 = (if changed_keys \<noteq> []
                     then emit_change cfg changed_keys (s1\<lparr>value_server := Some (fromJS x)\<rparr>)
                     else if first_connect then emit_change cfg changed_keys s1
                     else s1)
           in if conflict then save None s2 else s2))"

subsection \<open>One record of the changefeed: \<^verbatim>\<open>_update_change\<close>\<close>

definition delete_key :: "key \<Rightarrow> synctable \<Rightarrow> synctable" where
  "delete_key key s =
     s\<lparr>value_local := map_option (AList.delete key) (value_local s),
       value_server := map_option (AList.delete key) (value_server s)\<rparr>"

definition u_update_change ::
  "config \<Rightarrow> jsrec option \<times> jsrec option \<Rightarrow> synctable \<Rightarrow> synctable" where
  "u_update_change cfg = (\<lambda>(new_val, old_val) s.
     if state s = Closed then s
     else if value_local s = None then s
     else if value_server s = None then s
     else
       (let s0 = emit Before_change s;
            (conflict, ck, s1) =
              (case new_val of
                 Some n \<Rightarrow> u_handle_new_val cfg n [] s0
               | None \<Rightarrow> (False, [], s0));
            (changed_keys, s2) =
              (if old_val \<noteq> None \<and> u_key cfg old_val \<noteq> u_key cfg new_val
               then (ck @ [u_key cfg old_val], delete_key (u_key cfg old_val) s1)
               else (ck, s1))
        in if changed_keys \<noteq> []
           then (let s3 = emit_change cfg changed_keys s2
                 in if conflict then save None s3 else s3)
           else s2))"

subsection \<open>The save pipeline: \<^verbatim>\<open>_changes\<close>, \<^verbatim>\<open>_save\<close>, \<^verbatim>\<open>__save\<close>\<close>

text \<open>
  \<^verbatim>\<open>_changes\<close>: the plain object that maps the property name of each local key whose
  record differs from the server's to the pair of \<^verbatim>\<open>new_val\<close> and \<^verbatim>\<open>old_val\<close>, or
  \<^verbatim>\<open>undefined\<close>. It reads the two tables as \<^verbatim>\<open>_value_server\<close> and \<^verbatim>\<open>_value_local\<close>.
\<close>

definition u_changes ::
  "config \<Rightarrow> synctable \<Rightarrow> (string \<times> jsrec \<times> jsrec option) list option" where
  "u_changes cfg s =
     (case (u_value_server s, u_value_local s) of
        (Some S, Some L) \<Rightarrow>
          Some (fold (\<lambda>(key, new_val) changed.
                        if \<not> equals_opt new_val (map_of S key)
                        then AList.update (prop_name cfg key) (new_val, map_of S key) changed
                        else changed)
                  (entries L) [])
      | _ \<Rightarrow> None)"

text \<open>
  The properties of \<^verbatim>\<open>changed\<close>, as \<^verbatim>\<open>misc.keys(changed)\<close> and \<^verbatim>\<open>for (k in changed)\<close>
  enumerate them: there are none when \<^verbatim>\<open>changed\<close> is \<^verbatim>\<open>undefined\<close> (\<^verbatim>\<open>misc.keys\<close> is the
  function \<^verbatim>\<open>keys\<close> of underscore, which gives the empty list for a value that is not an
  object).
\<close>

definition changed_entries ::
  "(string \<times> jsrec \<times> jsrec option) list option \<Rightarrow> (string \<times> jsrec \<times> jsrec option) list" where
  "changed_entries changed = (case changed of None \<Rightarrow> [] | Some ch \<Rightarrow> ch)"

text \<open>
  \<^verbatim>\<open>v[i]\<close> on the value that \<^verbatim>\<open>JSON.parse\<close> gives for a compound key: an element of an
  array, a character of a string, the property of an object whose name is the number, and
  \<^verbatim>\<open>undefined\<close> on a number or a boolean; on \<^verbatim>\<open>null\<close> it throws.
\<close>

definition index_value :: "config \<Rightarrow> jsval \<Rightarrow> nat \<Rightarrow> string + jsval option" where
  "index_value cfg v i =
     (case v of
        JNull \<Rightarrow> Inl ''TypeError''
      | JArr xs \<Rightarrow> Inr (if i < length xs then Some (xs ! i) else None)
      | JStr str \<Rightarrow> Inr (if i < length str then Some (JStr [str ! i]) else None)
      | JObj ob \<Rightarrow> Inr (map_of ob (json_stable_stringify cfg (JNum (int i))))
      | _ \<Rightarrow> Inr None)"

text \<open>
  The primary key fields that \<^verbatim>\<open>__save\<close> writes first into the object of a changed
  key. A component that the parsed compound key does not have is undefined and is not
  part of the object that is sent.
\<close>

fun unwrap_key :: "config \<Rightarrow> jsval \<Rightarrow> string list \<Rightarrow> nat \<Rightarrow> jsrec \<Rightarrow> string + jsrec" where
  "unwrap_key cfg v [] i obj = Inr obj"
| "unwrap_key cfg v (primary_key # rest) i obj =
     (case index_value cfg v i of
        Inl e \<Rightarrow> Inl e
      | Inr None \<Rightarrow> unwrap_key cfg v rest (i + 1) obj
      | Inr (Some a) \<Rightarrow> unwrap_key cfg v rest (i + 1) (AList.update primary_key a obj))"

definition key_fields :: "config \<Rightarrow> string \<Rightarrow> string + jsrec" where
  "key_fields cfg key =
     (case primary_keys cfg of
        [pk] \<Rightarrow> Inr [(pk, JStr key)]
      | pks \<Rightarrow>
          (case json_parse cfg key of
             None \<Rightarrow> Inl ''SyntaxError''
           | Some v \<Rightarrow> unwrap_key cfg v pks 0 []))"

text \<open>The loop of \<^verbatim>\<open>__save\<close> over \<^verbatim>\<open>_set_fields\<close>, for one changed key.\<close>

definition add_set_field ::
  "config \<Rightarrow> jsrec \<Rightarrow> jsrec option \<Rightarrow> string \<Rightarrow> jsrec \<Rightarrow> jsrec" where
  "add_set_field cfg new_val old_val k obj =
     (case map_of new_val k of
        None \<Rightarrow> obj
      | Some JNull \<Rightarrow> obj
      | Some v \<Rightarrow>
          if k \<in> set (required_set_fields cfg) \<or> Some v \<noteq> server_get old_val k
          then AList.update k v obj else obj)"

text \<open>The body of the loop of \<^verbatim>\<open>__save\<close> over the changed keys, and the loop.\<close>

definition write_record :: "config \<Rightarrow> string \<times> jsrec \<times> jsrec option \<Rightarrow> string + jsrec" where
  "write_record cfg = (\<lambda>(key, new_val, old_val).
     case key_fields cfg key of
       Inl e \<Rightarrow> Inl e
     | Inr obj \<Rightarrow> Inr (fold (add_set_field cfg new_val old_val) (set_fields cfg) obj))"

fun write_records ::
  "config \<Rightarrow> (string \<times> jsrec \<times> jsrec option) list \<Rightarrow> string + jsrec list" where
  "write_records cfg [] = Inr []"
| "write_records cfg (c # cs) =
     (case write_record cfg c of
        Inl e \<Rightarrow> Inl e
      | Inr obj \<Rightarrow>
          (case write_records cfg cs of
             Inl e \<Rightarrow> Inl e
           | Inr saved_objs \<Rightarrow> Inr (obj # saved_objs)))"

text \<open>\<^verbatim>\<open>is_fatal\<close>: the error starts with FATAL and does not mention tracker.\<close>

definition index_of_found :: "string \<Rightarrow> string \<Rightarrow> bool" where
  "index_of_found p e \<longleftrightarrow> (\<exists>i \<in> set [0..<Suc (length e)]. take (length p) (drop i e) = p)"

definition is_fatal :: "string option \<Rightarrow> bool" where
  "is_fatal err =
     (case err of
        None \<Rightarrow> False
      | Some e \<Rightarrow> take 5 e = ''FATAL'' \<and> \<not> index_of_found ''tracker'' e)"

text \<open>
  \<^verbatim>\<open>__save\<close> up to the call of the transport: it answers its callback at once, or sends
  one write through \<^verbatim>\<open>_client\<close> and leaves the rest to the callback of that write
  (\<open>save_reply\<close> below).
\<close>

definition uu_save :: "config \<Rightarrow> callback option \<Rightarrow> synctable \<Rightarrow> synctable result" where
  "uu_save cfg cb s =
     (if state s = Closed then Inr (invoke cb (Some ''closed'') s)
      else if value_server s = None then Inr (invoke cb (Some ''don't know server yet'') s)
      else
        (case value_local s of
           None \<Rightarrow> Inr (invoke cb (Some ''don't know local yet'') s)
         | Some at_start \<Rightarrow>
             if u_client_query_set cfg = None then Inr (invoke cb None s)
             else
               (let changed = u_changes cfg s
                in case write_records cfg (sort_key fst (changed_entries changed)) of
                     Inl e \<Rightarrow> Inl (e, s)
                   | Inr saved_objs \<Rightarrow>
                       if saved_objs = [] then Inr (invoke cb None s)
                       else if u_client s = None then Inl (''TypeError'', s)
                       else Inr ((emit (Set_query saved_objs) s)
                                   \<lparr>in_flight := in_flight s @
                                      [\<lparr>sr_changed = changed_entries changed,
                                        sr_at_start = at_start,
                                        sr_saved_objs = saved_objs, sr_cb = cb\<rparr>]\<rparr>))))"

definition u_save :: "config \<Rightarrow> callback option \<Rightarrow> synctable \<Rightarrow> synctable result" where
  "u_save cfg cb s =
     (if state s = Closed then Inr (invoke cb (Some ''closed'') s)
      else if is_saving s then Inr (invoke cb (Some ''already saving'') s)
      else uu_save cfg (Some (Saving_done cb)) (s\<lparr>is_saving := True\<rparr>))"

text \<open>
  \<^verbatim>\<open>global_cache_decref\<close>, seen from the instance: the result is whether the instance is
  still in use; \<open>Cache_delete\<close> carries the name of the property that is deleted from
  \<^verbatim>\<open>synctables\<close>, which is read from \<^verbatim>\<open>_cache_key\<close>.
\<close>

definition global_cache_decref :: "synctable \<Rightarrow> bool \<times> synctable" where
  "global_cache_decref s =
     (case reference_count s of
        None \<Rightarrow> (False, s)
      | Some n \<Rightarrow>
          if n - 1 \<le> 0
          then (False,
                emit (Cache_delete (case u_cache_key s of None \<Rightarrow> ''undefined'' | Some ck \<Rightarrow> ck))
                  (s\<lparr>reference_count := Some (n - 1)\<rparr>))
          else (True, s\<lparr>reference_count := Some (n - 1)\<rparr>))"

text \<open>\<^verbatim>\<open>close\<close>. It closes the plug as \<^verbatim>\<open>_plug\<close> and cancels the changefeed through \<^verbatim>\<open>_client\<close>.\<close>

definition close :: "config \<Rightarrow> bool \<Rightarrow> synctable \<Rightarrow> synctable result" where
  "close cfg fatal s =
     (if state s = Closed then Inr s
      else
        (let (in_use, s1) = global_cache_decref s
         in if in_use then Inr s1
            else if u_plug s1 = None then Inl (''TypeError'', s1)
            else
              (let s2 = emit Remove_disconnect_listener (emit Plug_close s1)
               in case (if \<not> fatal then u_save cfg None s2 else Inr s2) of
                    Inl x \<Rightarrow> Inl x
                  | Inr s3 \<Rightarrow>
                      (let s4 = emit Remove_all_listeners s3
                       in case feed_id s4 of
                            None \<Rightarrow>
                              Inr (s4\<lparr>state := Closed, value_local := None,
                                       value_server := None\<rparr>)
                          | Some i \<Rightarrow>
                              if u_client s4 = None then Inl (''TypeError'', s4)
                              else Inr ((emit (Query_cancel i) s4)
                                          \<lparr>feed_id := None, state := Closed,
                                            value_local := None, value_server := None\<rparr>)))))"

text \<open>
  The loop that advances \<^verbatim>\<open>value_server\<close> after a successful write: only where the
  server's record is still the one the save started from.
\<close>

definition advance_server :: "(string \<times> jsrec \<times> jsrec option) list \<Rightarrow> table \<Rightarrow> table" where
  "advance_server changed S =
     fold (\<lambda>(k, new_val, old_val) S'.
             if is_opt (map_of S' (KStr k)) old_val then AList.update (KStr k) new_val S'
             else S')
       changed S"

text \<open>
  The callback that \<^verbatim>\<open>__save\<close> gives to the transport, run on the oldest write that has
  not been answered, with the transport's error if there is one.
\<close>

definition save_reply :: "config \<Rightarrow> string option \<Rightarrow> synctable \<Rightarrow> synctable result" where
  "save_reply cfg err s =
     (case in_flight s of
        [] \<Rightarrow> Inr s
      | r # rs \<Rightarrow>
          (let s0 = s\<lparr>in_flight := rs\<rparr>; cb = sr_cb r
           in if err \<noteq> None \<and> err \<noteq> Some []
              then
                (if is_fatal err then
                   (case close cfg True s0 of
                      Inl x \<Rightarrow> Inl x
                    | Inr s1 \<Rightarrow> Inr (invoke cb err s1))
                 else if err = Some ''clock'' then
                   (if u_client s0 = None then Inl (''TypeError'', s0)
                    else Inr (invoke cb err (emit Alert_clock s0)))
                 else Inr (invoke cb err s0))
              else
                 (if state s0 = Closed then Inr (invoke cb (Some ''closed'') s0)
                  else
                    (case (value_server s0, value_local s0) of
                       (Some S, Some L) \<Rightarrow>
                         (let s1 = (emit (Saved (sr_saved_objs r)) s0)
                                     \<lparr>value_server := Some (advance_server (sr_changed r) S)\<rparr>
                          in if \<not> tbl_equals (sr_at_start r) L then u_save cfg cb s1
                             else Inr (invoke cb None s1))
                     | _ \<Rightarrow>
                         Inr (invoke cb (Some ''value_server and value_local must be set'')
                                s0)))))"

subsection \<open>Local mutation: \<^verbatim>\<open>set\<close>\<close>

text \<open>The second argument of \<^verbatim>\<open>set\<close>: absent, the callback itself, or the name of a strategy.\<close>

datatype merge_arg = Merge_absent | Merge_callback callback | Merge_name string

fun key_value :: "key \<Rightarrow> jsval option" where
  "key_value KUndef = None"
| "key_value (KStr s) = Some (JStr s)"
| "key_value (KNum n) = Some (JNum n)"
| "key_value (KBool b) = Some (JBool b)"

fun computed_all :: "set_fields_schema \<Rightarrow> jsrec \<Rightarrow> string list \<Rightarrow> jsval list option" where
  "computed_all flds obj [] = Some []"
| "computed_all flds obj (pk # pks) =
     (case map_of flds pk of
        Some (Some f) \<Rightarrow>
          (case computed_all flds obj pks of None \<Rightarrow> None | Some v \<Rightarrow> Some (f obj # v))
      | _ \<Rightarrow> None)"

text \<open>
  \<^verbatim>\<open>_computed_primary_key\<close>. It reads \<^verbatim>\<open>_client_query.set.fields\<close> for each primary key,
  which throws when the schema has no \<^verbatim>\<open>set\<close>.
\<close>

definition u_computed_primary_key :: "config \<Rightarrow> jsrec \<Rightarrow> string + jsval option" where
  "u_computed_primary_key cfg obj =
     (case primary_keys cfg of
        [] \<Rightarrow> Inr (Some (JArr []))
      | [pk] \<Rightarrow>
          (case u_client_query_set cfg of
             None \<Rightarrow> Inl ''TypeError''
           | Some flds \<Rightarrow>
               Inr (case map_of flds pk of Some (Some f) \<Rightarrow> Some (f obj) | _ \<Rightarrow> None))
      | pks \<Rightarrow>
          (case u_client_query_set cfg of
             None \<Rightarrow> Inl ''TypeError''
           | Some flds \<Rightarrow> Inr (map_option JArr (computed_all flds obj pks))))"

text \<open>
  The part of \<^verbatim>\<open>set\<close> that determines the primary key's value: the result is the key
  and \<^verbatim>\<open>changes\<close> with the primary key filled in, or \<open>None\<close> when no key is found.
\<close>

definition resolve_id :: "config \<Rightarrow> jsrec \<Rightarrow> table \<Rightarrow> string + (key \<times> jsrec) option" where
  "resolve_id cfg changes L =
     (if u_key cfg (Some changes) \<noteq> KUndef then Inr (Some (u_key cfg (Some changes), changes))
      else
        (case u_computed_primary_key cfg changes of
           Inl e \<Rightarrow> Inl e
         | Inr id0 \<Rightarrow>
             (let id1 = (case id0 of None \<Rightarrow> KUndef | Some v \<Rightarrow> to_key cfg v);
                  (id0', id2) =
                    (if id1 = KUndef \<and> length (primary_keys cfg) = 1
                     then (key_value (key_seq_first cfg L), key_seq_first cfg L)
                     else (id0, id1))
              in if id2 = KUndef then Inr None
                 else
                   (case primary_keys cfg of
                      [pk] \<Rightarrow>
                        (case id0' of
                           Some a \<Rightarrow> Inr (Some (id2, AList.update pk a changes))
                         | None \<Rightarrow> Inr (Some (id2, changes)))
                    | pks \<Rightarrow>
                        (case id0' of
                           Some (JArr v) \<Rightarrow>
                             Inr (Some (id2,
                                        fold (\<lambda>(pk, a) c. AList.update pk a c) (zip pks v)
                                          changes))
                         | _ \<Rightarrow> Inr (Some (id2, changes)))))))"

text \<open>\<^verbatim>\<open>cur.merge(changes)\<close>, the shallow merge of immutable.js.\<close>

definition merge_shallow :: "jsrec \<Rightarrow> jsrec \<Rightarrow> jsrec" where
  "merge_shallow cur changes = fold (\<lambda>(k, v) c. AList.update k v c) (entries changes) cur"

definition is_null_or_undefined :: "jsval option \<Rightarrow> bool" where
  "is_null_or_undefined v \<longleftrightarrow> v = None \<or> v = Some JNull"

fun join_comma :: "string list \<Rightarrow> string" where
  "join_comma [] = []"
| "join_comma [a] = a"
| "join_comma (a # b # rest) = a @ '','' @ join_comma (b # rest)"

definition quoted :: "string \<Rightarrow> string" where
  "quoted a = [CHR 0x27] @ a @ [CHR 0x27]"

text \<open>The end of \<^verbatim>\<open>set\<close>, once the next value is known.\<close>

definition commit_set ::
  "config \<Rightarrow> key \<Rightarrow> jsrec \<Rightarrow> jsrec option \<Rightarrow> table \<Rightarrow> callback option \<Rightarrow> synctable \<Rightarrow>
     jsrec option \<times> synctable" where
  "commit_set cfg ident new_val cur L cb s =
     (if \<not> is_opt (Some new_val) cur
      then (Some new_val,
            emit_change cfg [ident]
              (save cb (s\<lparr>value_local := Some (AList.update ident new_val L)\<rparr>)))
      else (Some new_val, invoke cb None s))"

text \<open>The switch of \<^verbatim>\<open>set\<close> on the merge strategy.\<close>

definition next_value :: "config \<Rightarrow> string \<Rightarrow> jsrec \<Rightarrow> jsrec \<Rightarrow> jsrec option" where
  "next_value cfg strategy cur changes =
     (if strategy = ''deep'' then Some (merge_deep cfg cur changes)
      else if strategy = ''shallow'' then Some (merge_shallow cur changes)
      else if strategy = ''none'' then Some changes
      else None)"

text \<open>
  \<^verbatim>\<open>set\<close>. The test that each key may be set reads the schema as \<^verbatim>\<open>client_query\<close>:
  \<^verbatim>\<open>this.client_query.set\<close> throws when that property is undefined.
\<close>

definition set_record ::
  "config \<Rightarrow> jsval \<Rightarrow> merge_arg \<Rightarrow> callback option \<Rightarrow> synctable \<Rightarrow>
     (jsrec option \<times> synctable) result" where
  "set_record cfg changes merge cb0 s =
     (if state s = Closed then Inr (None, invoke cb0 (Some ''closed'') s)
      else
        (let s1 = (if value_local s = None then s\<lparr>value_local := Some []\<rparr> else s);
             (strategy, cb) =
               (case merge of
                  Merge_absent \<Rightarrow> (''deep'', cb0)
                | Merge_callback c \<Rightarrow> (''deep'', Some c)
                | Merge_name m \<Rightarrow> (m, cb0))
         in case changes of
              JObj ch \<Rightarrow>
                (case client_query s1 of
                   None \<Rightarrow> Inl (''TypeError'', s1)
                 | Some None \<Rightarrow>
                     Inr (None, invoke cb (Some (''users may not set '' @ table_name cfg)) s1)
                 | Some (Some can_set) \<Rightarrow>
                     (case find (\<lambda>(k, v). map_of can_set k = None) (entries ch) of
                        Some (k, v) \<Rightarrow>
                          Inr (None,
                               invoke cb
                                 (Some (''users may not set '' @ table_name cfg @ ''.'' @ k)) s1)
                      | None \<Rightarrow>
                          (case value_local s1 of
                             None \<Rightarrow> Inr (None, s1)
                           | Some L \<Rightarrow>
                               (case resolve_id cfg ch L of
                                  Inl e \<Rightarrow> Inl (e, s1)
                                | Inr None \<Rightarrow>
                                    Inr (None,
                                         invoke cb
                                           (Some (''must specify primary key '' @
                                                  join_comma (primary_keys cfg) @
                                                  '', have at least one record, or have a computed primary key''))
                                           s1)
                                | Inr (Some (ident, ch')) \<Rightarrow>
                                    (case map_of L ident of
                                       None \<Rightarrow>
                                         (case find (\<lambda>k. is_null_or_undefined (map_of ch' k))
                                                 (required_set_fields cfg) of
                                            Some k \<Rightarrow>
                                              Inr (None,
                                                   invoke cb
                                                     (Some (''must specify field '' @ quoted k @
                                                            '' for new records'')) s1)
                                          | None \<Rightarrow> Inr (commit_set cfg ident ch' None L cb s1))
                                     | Some cur \<Rightarrow>
                                         (case next_value cfg strategy cur ch' of
                                            Some new_val \<Rightarrow>
                                              Inr (commit_set cfg ident new_val (Some cur) L cb s1)
                                          | None \<Rightarrow>
                                              Inr (None,
                                                   invoke cb
                                                     (Some (''merge must be one of '' @
                                                            quoted ''deep'' @ '', '' @
                                                            quoted ''shallow'' @ '', '' @
                                                            quoted ''none'')) s1)))))))
            | _ \<Rightarrow>
                Inr (None,
                     invoke cb
                       (Some ''type error -- changes must be an immutable.js Map or JS map'')
                       s1)))"

subsection \<open>The registry: \<^verbatim>\<open>sync_table\<close>\<close>

text \<open>
  Instances are objects: the store \<open>heap\<close> maps an address to the instance that lives
  there, \<^verbatim>\<open>synctables\<close> maps a cache key to an address, and \<open>next_tick\<close> holds the
  functions given to \<^verbatim>\<open>async.nextTick\<close> that have not run yet, each by the address of its
  instance.
\<close>

record request =
  rq_query :: jsval
  rq_options :: jsval
  rq_debounce_interval :: int
  rq_throttle_changes :: "int option"
  rq_use_cache :: bool

record world =
  synctables :: "(string \<times> nat) list"
  heap :: "(nat \<times> synctable) list"
  next_tick :: "nat list"

definition cache_key :: "(jsval \<Rightarrow> string) \<Rightarrow> request \<Rightarrow> string" where
  "cache_key stringify rq =
     stringify
       (JObj ([(''debounce_interval'', JNum (rq_debounce_interval rq)),
               (''options'', rq_options rq), (''query'', rq_query rq)] @
              (case rq_throttle_changes rq of
                 None \<Rightarrow> []
               | Some t \<Rightarrow> [(''throttle_changes'', JNum t)])))"

text \<open>
  \<^verbatim>\<open>sync_table\<close>. The constructor \<open>new_SyncTable\<close> is a parameter: it gives the new
  instance, or the error that \<^verbatim>\<open>init_query\<close> throws. The result is the address of the
  instance that is returned, and the new world. The state of a cached instance is read
  as \<^verbatim>\<open>S._state\<close>.
\<close>

definition sync_table ::
  "(jsval \<Rightarrow> string) \<Rightarrow> (request \<Rightarrow> string + synctable) \<Rightarrow> request \<Rightarrow> world \<Rightarrow>
     string + nat \<times> world" where
  "sync_table stringify new_SyncTable rq w =
     (let ck = cache_key stringify rq; a = length (heap w)
      in if \<not> rq_use_cache rq then
           (case new_SyncTable rq of
              Inl e \<Rightarrow> Inl e
            | Inr S \<Rightarrow> Inr (a, w\<lparr>heap := heap w @ [(a, S)]\<rparr>))
         else
           (case map_of (synctables w) ck of
              Some b \<Rightarrow>
                (case map_of (heap w) b of
                   Some S \<Rightarrow>
                     (let w1 = (if u_state S = Some Connected
                                then w\<lparr>next_tick := next_tick w @ [b]\<rparr> else w)
                      in Inr (b, w1\<lparr>heap := AList.update b
                                     (S\<lparr>reference_count :=
                                          map_option (\<lambda>n. n + 1) (reference_count S)\<rparr>)
                                     (heap w1)\<rparr>))
                 | None \<Rightarrow> Inl ''no instance at this address'')
            | None \<Rightarrow>
                (case new_SyncTable rq of
                   Inl e \<Rightarrow> Inl e
                 | Inr S \<Rightarrow>
                     Inr (a, w\<lparr>synctables := AList.update ck a (synctables w),
                               heap := heap w @ [(a, S\<lparr>reference_count := Some 1\<rparr>)]\<rparr>))))"

text \<open>The function given to \<^verbatim>\<open>async.nextTick\<close> runs: the oldest one first.\<close>

definition run_next_tick :: "world \<Rightarrow> world" where
  "run_next_tick w =
     (case next_tick w of
        [] \<Rightarrow> w
      | b # rest \<Rightarrow>
          (case map_of (heap w) b of
             Some S \<Rightarrow>
               if u_state S = Some Connected
               then w\<lparr>next_tick := rest,
                      heap := AList.update b (emit Connected_event S) (heap w)\<rparr>
               else w\<lparr>next_tick := rest\<rparr>
           | None \<Rightarrow> w\<lparr>next_tick := rest\<rparr>))"

section \<open>Notions used in the statements\<close>

subsection \<open>Reading the two tables\<close>

text \<open>
  \<^verbatim>\<open>value_local.get(key)\<close> and \<^verbatim>\<open>value_server.get(key)\<close> as maps from field names to
  values, and the record that the two loops of \<^verbatim>\<open>_handle_new_val\<close> compute, as a map.
\<close>

definition lget :: "synctable \<Rightarrow> key \<Rightarrow> (string \<rightharpoonup> jsval) option" where
  "lget s K = (case value_local s of None \<Rightarrow> None | Some L \<Rightarrow> map_option map_of (map_of L K))"

definition sget :: "synctable \<Rightarrow> key \<Rightarrow> (string \<rightharpoonup> jsval) option" where
  "sget s K = (case value_server s of None \<Rightarrow> None | Some S \<Rightarrow> map_option map_of (map_of S K))"

definition field_of :: "(string \<rightharpoonup> jsval) option \<Rightarrow> string \<Rightarrow> jsval option" where
  "field_of r f = (case r of None \<Rightarrow> None | Some m \<Rightarrow> m f)"

definition merged ::
  "(string \<rightharpoonup> jsval) \<Rightarrow> (string \<rightharpoonup> jsval) option \<Rightarrow> (string \<rightharpoonup> jsval) \<Rightarrow> (string \<rightharpoonup> jsval)" where
  "merged n srv l = (\<lambda>f. if n f \<noteq> field_of srv f then n f else l f)"

text \<open>What one call of \<^verbatim>\<open>_handle_new_val\<close> does, in terms of these readings.\<close>

definition hnv_post ::
  "config \<Rightarrow> jsrec \<Rightarrow> key list \<Rightarrow> synctable \<Rightarrow> bool \<Rightarrow> key list \<Rightarrow> synctable \<Rightarrow> bool" where
  "hnv_post cfg n ck s c ck' s' \<longleftrightarrow>
     (let key = u_key cfg (Some n);
          m = (case lget s key of None \<Rightarrow> map_of n
               | Some l \<Rightarrow> merged (map_of n) (sget s key) l)
      in lget s' = (lget s)(key := Some m) \<and>
         sget s' = (sget s)(key := Some (map_of n)) \<and>
         (c \<longleftrightarrow> lget s key \<noteq> None \<and> m \<noteq> map_of n) \<and>
         ck' = (if lget s key = Some m then ck else ck @ [key]) \<and>
         value_local s' \<noteq> None \<and> value_server s' \<noteq> None \<and>
         state s' = state s \<and>
         (\<exists>l'. map_of l' = m \<and> trace s' = trace s @ (if c then [Conflict n l'] else [])))"

subsection \<open>A key has been notified\<close>

text \<open>
  Between \<open>s\<close> and \<open>s'\<close> the key has been given to the listeners of \<^verbatim>\<open>change\<close>: a change
  event that carries it (as it is, or as the property name under which the throttled
  emitter records it) has been emitted, or the key is recorded and a throttled emission
  is pending.
\<close>

definition notified :: "config \<Rightarrow> key \<Rightarrow> synctable \<Rightarrow> synctable \<Rightarrow> bool" where
  "notified cfg k s s' \<longleftrightarrow>
     (\<exists>es. trace s' = trace s @ es \<and>
        ((\<exists>ks. Change ks \<in> set es \<and> (k \<in> set ks \<or> KStr (prop_name cfg k) \<in> set ks)) \<or>
         (prop_name cfg k \<in> set (all_changed_keys s') \<and> throttle_pending s')))"

subsection \<open>A small table\<close>

text \<open>
  A table \<open>t\<close> with the primary key \<open>id\<close> and the settable fields \<open>f\<close> and \<open>g\<close>, and an
  instance that holds the record \<open>k\<close> with a local value of \<open>f\<close> that the server does not
  have yet.
\<close>

definition example_config :: config where
  "example_config =
     \<lparr>table_name = ''t'', primary_keys = [''id''], set_fields = [''id'', ''f'', ''g''],
      required_set_fields = [],
      u_client_query_set = Some [(''id'', None), (''f'', None), (''g'', None)],
      throttle_changes = None, json_stable_stringify = (\<lambda>v. ''json''),
      json_parse = (\<lambda>s. None),
      key_seq_first = (\<lambda>L. case L of [] \<Rightarrow> KUndef | (k, r) # rest \<Rightarrow> k),
      merge_deep = merge_shallow\<rparr>"

definition example_table :: synctable where
  "example_table =
     \<lparr>state = Connected,
      value_local = Some [(KStr ''k'', [(''id'', JStr ''k''), (''f'', JStr ''A'')])],
      value_server = Some [(KStr ''k'', [(''id'', JStr ''k''), (''f'', JStr ''C'')])],
      feed_id = None, is_saving = False, reference_count = None,
      connected_save_cbs = [], all_changed_keys = [], throttle_idle = True,
      throttle_pending = False, in_flight = [], trace = [],
      u_value_local = None, u_value_server = None, u_state = None, u_cache_key = None,
      client_query = None, u_client = None, u_plug = None\<rparr>"

text \<open>
  A request for that table, and the registry after the first request with this signature:
  the instance lives at address 0 and has one reference.
\<close>

definition example_request :: request where
  "example_request =
     \<lparr>rq_query = JStr ''t'', rq_options = JNull, rq_debounce_interval = 2000,
      rq_throttle_changes = None, rq_use_cache = True\<rparr>"

definition example_world :: world where
  "example_world =
     \<lparr>synctables = [(''json'', 0)],
      heap = [(0, example_table\<lparr>reference_count := Some 1\<rparr>)], next_tick = []\<rparr>"

text \<open>An instance that has just been connected for the first time and knows no value yet.\<close>

definition fresh_table :: synctable where
  "fresh_table =
     \<lparr>state = Connected, value_local = None, value_server = None,
      feed_id = Some ''q1'', is_saving = False, reference_count = Some 1,
      connected_save_cbs = [], all_changed_keys = [], throttle_idle = True,
      throttle_pending = False, in_flight = [], trace = [],
      u_value_local = None, u_value_server = None, u_state = None, u_cache_key = None,
      client_query = None, u_client = None, u_plug = None\<rparr>"


subsection \<open>Calls of the transport\<close>

text \<open>
  \<open>writes\<close> counts the write calls of the transport in a trace. \<open>then_save\<close> is a call of
  \<^verbatim>\<open>_save\<close> that follows another call: it runs on the state that call has left, unless it
  has thrown.
\<close>

definition writes :: "event list \<Rightarrow> nat" where
  "writes es = length (filter (\<lambda>e. case e of Set_query q \<Rightarrow> True | _ \<Rightarrow> False) es)"


subsection \<open>The fields of a write\<close>





subsection \<open>The loops of \<^verbatim>\<open>_update_all\<close>\<close>

text \<open>
  \<open>keyed\<close>: every record of the plain object \<^verbatim>\<open>x\<close> is stored under the property name of
  its own key. \<open>absent_post\<close> and \<open>add_new_post\<close> say what one step of the first loop does
  for a local key that \<^verbatim>\<open>x\<close> does not have, and what one step of the second loop does.
\<close>

definition keyed :: "config \<Rightarrow> (string \<times> jsrec) list \<Rightarrow> bool" where
  "keyed cfg x \<longleftrightarrow> (\<forall>p y. map_of x p = Some y \<longrightarrow> prop_name cfg (u_key cfg (Some y)) = p)"

definition absent_post ::
  "key \<Rightarrow> key list \<Rightarrow> bool \<Rightarrow> synctable \<Rightarrow> key list \<Rightarrow> bool \<Rightarrow> synctable \<Rightarrow> bool" where
  "absent_post K ck c s ck' c' s' \<longleftrightarrow>
     (case lget s K of
        None \<Rightarrow> ck' = ck \<and> c' = c \<and> s' = s
      | Some l \<Rightarrow>
          if sget s K = Some l
          then lget s' = (lget s)(K := None) \<and> sget s' = sget s \<and> ck' = ck @ [K] \<and> c' = c \<and>
               trace s' = trace s \<and> state s' = state s \<and>
               value_local s' \<noteq> None \<and> value_server s' \<noteq> None
          else ck' = ck \<and> c' \<and> s' = s)"

definition add_new_post ::
  "string \<Rightarrow> jsrec \<Rightarrow> key list \<Rightarrow> synctable \<Rightarrow> key list \<Rightarrow> synctable \<Rightarrow> bool" where
  "add_new_post p val ck s ck' s' \<longleftrightarrow>
     (if lget s (KStr p) = None
      then lget s' = (lget s)(KStr p := Some (map_of val)) \<and> ck' = ck @ [KStr p]
      else lget s' = lget s \<and> ck' = ck) \<and>
     sget s' = sget s \<and> trace s' = trace s \<and> state s' = state s \<and>
     value_local s' \<noteq> None \<and> value_server s' = value_server s"

text \<open>
  What the first loop keeps true of one key \<open>k\<close> that the snapshot has as the record \<open>n\<close>:
  the tables are set, the state is \<open>st\<close>, the trace extends \<open>tr0\<close>, and either the key has
  not been visited and its records are the initial ones, or the local record is the
  merged one, the server record is \<open>n\<close> and, if the two differ, the conflict flag is set
  and the conflict event is in the trace.
\<close>

definition key_inv ::
  "key \<Rightarrow> jsrec \<Rightarrow> (string \<rightharpoonup> jsval) \<Rightarrow> (string \<rightharpoonup> jsval) option \<Rightarrow> conn_state \<Rightarrow>
     event list \<Rightarrow> bool \<Rightarrow> bool \<Rightarrow> synctable \<Rightarrow> bool" where
  "key_inv k n l srv0 st tr0 visited c s \<longleftrightarrow>
     value_local s \<noteq> None \<and> value_server s \<noteq> None \<and> state s = st \<and>
     (\<exists>es. trace s = tr0 @ es) \<and>
     ((\<not> visited \<and> lget s k = Some l \<and> sget s k = srv0) \<or>
      (lget s k = Some (merged (map_of n) srv0 l) \<and> sget s k = Some (map_of n) \<and>
       (merged (map_of n) srv0 l \<noteq> map_of n \<longrightarrow>
          c \<and> (\<exists>l'. map_of l' = merged (map_of n) srv0 l \<and>
                     Conflict n l' \<in> set (drop (length tr0) (trace s))))))"

subsection \<open>A snapshot that has been applied\<close>

text \<open>
  \<open>strkeyed\<close>: the key of every record of \<^verbatim>\<open>x\<close> is the string under which \<^verbatim>\<open>x\<close> stores it.
  \<open>settled\<close>: the state that a snapshot leaves behind: every record of \<^verbatim>\<open>x\<close> has a local
  record and is the server's record, and a local key that \<^verbatim>\<open>x\<close> does not have differs
  from the server's record. \<open>pass1_inv\<close> is what the first loop of \<^verbatim>\<open>_update_all\<close> keeps
  true of the keys \<open>Vs\<close> it has visited: the server holds the snapshot's record of each,
  and as long as no key has changed, the local table is the initial one and a visited
  key missing from \<^verbatim>\<open>x\<close> differs from the server's record.
\<close>

definition strkeyed :: "config \<Rightarrow> (string \<times> jsrec) list \<Rightarrow> bool" where
  "strkeyed cfg x \<longleftrightarrow> (\<forall>p y. map_of x p = Some y \<longrightarrow> u_key cfg (Some y) = KStr p)"



section \<open>Lemmas\<close>

subsection \<open>Maps and the merge of one record\<close>

lemma rec_equals_iff: "rec_equals a b \<longleftrightarrow> map_of a = map_of b"
proof
  assume h: "rec_equals a b"
  show "map_of a = map_of b"
  proof
    fix k
    show "map_of a k = map_of b k"
    proof (cases "k \<in> set (map fst a @ map fst b)")
      case True
      with h show ?thesis by (simp add: rec_equals_def)
    next
      case False
      then have "map_of a k = None" "map_of b k = None"
        by (simp_all add: map_of_eq_None_iff)
      then show ?thesis by simp
    qed
  qed
next
  assume "map_of a = map_of b"
  then show "rec_equals a b" by (simp add: rec_equals_def)
qed

lemma map_of_entries: "map_of (entries al) = map_of al"
  by (simp add: entries_def map_of_clearjunk)

lemma distinct_entries: "distinct (map fst (entries al))"
  by (simp add: entries_def)

lemma fold_update_cond:
  "distinct (map fst es) \<Longrightarrow>
   map_of (fold (\<lambda>(k, v) l. if P k v then AList.update k v l else l) es l0) f =
     (case map_of es f of
        Some v \<Rightarrow> if P f v then Some v else map_of l0 f
      | None \<Rightarrow> map_of l0 f)"
proof (induction es arbitrary: l0)
  case Nil
  then show ?case by simp
next
  case (Cons e es)
  obtain k v where e: "e = (k, v)" by (cases e)
  from Cons.prems have d: "distinct (map fst es)" and nk: "k \<notin> fst ` set es"
    by (simp_all add: e)
  from nk have none: "map_of es k = None" by (simp add: map_of_eq_None_iff)
  show ?case
    using Cons.IH [OF d] none
    by (auto simp: e update_conv' split: option.splits)
qed

lemma fold_delete_cond:
  "map_of (fold (\<lambda>(k, v) l. if Q k then AList.delete k l else l) es l0) f =
     (if f \<in> fst ` set es \<and> Q f then None else map_of l0 f)"
proof (induction es arbitrary: l0)
  case Nil
  then show ?case by simp
next
  case (Cons e es)
  obtain k v where e: "e = (k, v)" by (cases e)
  show ?case
    using Cons.IH
    by (auto simp: e delete_conv')
qed

lemma apply_changed_lookup:
  "map_of (apply_changed n srv l) f =
     (case map_of n f of
        Some v \<Rightarrow> if Some v \<noteq> server_get srv f then Some v else map_of l f
      | None \<Rightarrow> map_of l f)"
  unfolding apply_changed_def
  using fold_update_cond [OF distinct_entries, of "\<lambda>k v. Some v \<noteq> server_get srv k" n l f]
  by (simp add: map_of_entries)

lemma drop_removed_lookup:
  "map_of (drop_removed n srv l) f =
     (if server_get srv f \<noteq> None \<and> map_of n f = None then None else map_of l f)"
proof (cases srv)
  case None
  then show ?thesis by (simp add: drop_removed_def server_get_def)
next
  case (Some r)
  have "fst ` set (entries r) = fst ` set r"
    by (simp add: entries_def dom_clearjunk)
  then have "f \<in> fst ` set (entries r) \<longleftrightarrow> map_of r f \<noteq> None"
    by (simp add: map_of_eq_None_iff)
  then show ?thesis
    using fold_delete_cond [of "\<lambda>k. map_of n k = None" "entries r" l f] Some
    by (simp add: drop_removed_def server_get_def)
qed

lemma merge_record_lookup:
  "map_of (merge_record n srv l) f =
     (if map_of n f \<noteq> server_get srv f
      then map_of n f
      else map_of l f)"
  by (auto simp: merge_record_def drop_removed_lookup apply_changed_lookup split: option.splits)

lemma merge_record_merged:
  "map_of (merge_record n srv l) = merged (map_of n) (map_option map_of srv) (map_of l)"
  by (rule ext) (cases srv; simp add: merge_record_lookup merged_def field_of_def server_get_def)

lemma merged_same [simp]: "merged n (Some n) l = l"
  by (rule ext) (simp add: merged_def field_of_def)

lemma equals_opt_iff: "equals_opt a b \<longleftrightarrow> map_option map_of b = Some (map_of a)"
  by (cases b) (auto simp: rec_equals_iff)

lemma is_opt_iff: "is_opt a b \<longleftrightarrow> map_option map_of a = map_option map_of b"
  by (cases a; cases b) (auto simp: rec_equals_iff)

lemma hnv_spec:
  assumes L: "value_local s = Some L" and S: "value_server s = Some S"
    and r: "u_handle_new_val cfg n ck s = (c, ck', s')"
  shows "hnv_post cfg n ck s c ck' s'"
proof (cases "map_of L (u_key cfg (Some n))")
  case None
  with r L S show ?thesis
    by (auto simp: hnv_post_def u_handle_new_val_def Let_def lget_def sget_def
          update_conv' fun_eq_iff)
next
  case (Some l)
  let ?key = "u_key cfg (Some n)"
  let ?l' = "merge_record n (map_of S ?key) l"
  have m: "merged (map_of n) (map_option map_of (map_of S ?key)) (map_of l) = map_of ?l'"
    by (simp add: merge_record_merged)
  show ?thesis
  proof (cases "map_of n = map_of l")
    case True
    then have "map_of ?l' = map_of l"
      by (simp add: m [symmetric] merged_def fun_eq_iff)
    with r L S Some True show ?thesis
      by (auto simp: hnv_post_def u_handle_new_val_def Let_def lget_def sget_def
          update_conv' fun_eq_iff rec_equals_iff m)
  next
    case False
    with r L S Some show ?thesis
      by (auto simp: hnv_post_def u_handle_new_val_def Let_def lget_def sget_def
          update_conv' fun_eq_iff rec_equals_iff m emit_def split: if_splits)
  qed
qed

subsection \<open>Notifications and saves leave the tables alone\<close>





lemma save_tables: "value_local (save cb s) = value_local s" "value_server (save cb s) = value_server s"
proof -
  have inv: "value_local (invoke c e t) = value_local t \<and> value_server (invoke c e t) = value_server t" for c e t
    by (induction c e t rule: invoke.induct) (simp_all add: emit_def)
  show "value_local (save cb s) = value_local s" "value_server (save cb s) = value_server s"
    by (simp_all add: save_def inv emit_def)
qed

lemma lget_save [simp]: "lget (save cb s) = lget s" and sget_save [simp]: "sget (save cb s) = sget s"
  by (rule ext, simp add: lget_def sget_def save_tables)+

lemma emit_change_tables:
  "value_local (emit_change cfg ks s) = value_local s"
  "value_server (emit_change cfg ks s) = value_server s"
  "state (emit_change cfg ks s) = state s"
  by (auto simp: emit_change_def emit_def throttled_emit_def do_emit_changes_def split: option.splits)

lemma lget_emit_change [simp]: "lget (emit_change cfg ks s) = lget s"
  and sget_emit_change [simp]: "sget (emit_change cfg ks s) = sget s"
  by (rule ext, simp add: lget_def sget_def emit_change_tables)+

lemma fold_record_key_mem:
  "a \<in> set ks \<or> prop_name cfg a \<in> set acc \<Longrightarrow>
   prop_name cfg a \<in> set (fold (\<lambda>k ks. record_key (prop_name cfg k) ks) ks acc)"
  by (induction ks arbitrary: acc) (auto simp: record_key_def)

lemma emit_change_notified:
  assumes "k \<in> set ks"
  shows "notified cfg k s (emit_change cfg ks s)"
proof (cases "throttle_changes cfg = None \<or> throttle_changes cfg = Some 0")
  case True
  with assms show ?thesis
    by (auto simp: notified_def emit_change_def emit_def)
next
  case False
  then obtain w where w: "throttle_changes cfg = Some w" "w \<noteq> 0" by auto
  have m: "prop_name cfg k \<in> set (fold (\<lambda>k ks. record_key (prop_name cfg k) ks) ks (all_changed_keys s))"
    using assms by (simp add: fold_record_key_mem)
  show ?thesis
    using w m
    by (auto simp: notified_def emit_change_def emit_def throttled_emit_def do_emit_changes_def)
qed

lemma notified_compose:
  assumes "trace s1 = trace s @ es0" and "notified cfg k s1 s2"
    and "\<exists>es. trace s3 = trace s2 @ es" and "all_changed_keys s3 = all_changed_keys s2"
    and "throttle_pending s3 = throttle_pending s2"
  shows "notified cfg k s s3"
  using assms unfolding notified_def
  by (elim exE conjE) (auto; metis)+




subsection \<open>The first snapshot\<close>

lemma update_all_first_empty:
  assumes "state s \<noteq> Closed" and "value_local s = None \<or> value_server s = None"
  shows "u_update_all cfg (Some []) s =
           emit_change cfg []
             ((emit Before_change s)\<lparr>value_local := Some [], value_server := Some []\<rparr>)"
  using assms
  by (auto simp: u_update_all_def restructure_def update_all_merge_def fromJS_def emit_def
      split: option.splits)

subsection \<open>Callbacks and emissions\<close>

lemma invoke_frame:
  "in_flight (invoke c e s) = in_flight s"
  "writes (trace (invoke c e s)) = writes (trace s)"
  "state (invoke c e s) = state s"
  "value_local (invoke c e s) = value_local s"
  "value_server (invoke c e s) = value_server s"
  by (induction c e s rule: invoke.induct) (simp_all add: emit_def writes_def)

lemma emit_frame [simp]:
  "is_saving (emit e s) = is_saving s" "state (emit e s) = state s"
  "in_flight (emit e s) = in_flight s" "value_local (emit e s) = value_local s"
  "value_server (emit e s) = value_server s"
  by (simp_all add: emit_def)

subsection \<open>A save while \<^verbatim>\<open>_changes\<close> finds no table\<close>

lemma uu_save_without_changes:
  assumes "u_value_server s = None \<or> u_value_local s = None"
  shows "\<exists>s'. uu_save cfg cb s = Inr s' \<and> writes (trace s') = writes (trace s) \<and>
           in_flight s' = in_flight s"
proof -
  have "u_changes cfg s = None"
    using assms by (auto simp: u_changes_def split: option.splits)
  then show ?thesis
    by (auto simp: uu_save_def changed_entries_def invoke_frame split: option.splits)
qed

subsection \<open>The record written for a changed key\<close>






subsection \<open>A record of the changefeed with the key of a local record\<close>

lemma emit_change_trace:
  "\<exists>es. trace (emit_change cfg ks s) = trace s @ es \<and> (\<forall>e \<in> set es. \<exists>ks'. e = Change ks')"
  by (auto simp: emit_change_def emit_def throttled_emit_def do_emit_changes_def
      split: option.splits)

lemma save_connected:
  assumes "state s = Connected" "value_local s \<noteq> None" "value_server s \<noteq> None"
  shows "save cb s = emit (Async_debounce cb) s"
  using assms by (auto simp: save_def)

lemma update_change_same_key:
  assumes "state s \<noteq> Closed" "value_local s \<noteq> None" "value_server s \<noteq> None"
    and "u_handle_new_val cfg n [] (emit Before_change s) = (c, ck, s1)"
    and "old_val = None \<or> u_key cfg old_val = u_key cfg (Some n)"
    and "ck \<noteq> []"
  shows "u_update_change cfg (Some n, old_val) s =
     (if c then save None (emit_change cfg ck s1) else emit_change cfg ck s1)"
  using assms by (auto simp add: u_update_change_def Let_def)

subsection \<open>The loops of a full snapshot\<close>

lemma fold_restructure_keyed:
  "keyed cfg x0 \<Longrightarrow>
   keyed cfg (fold (\<lambda>y x. AList.update (prop_name cfg (u_key cfg (Some y))) y x) v x0)"
proof (induction v arbitrary: x0)
  case Nil
  then show ?case by simp
next
  case (Cons y v)
  have "keyed cfg (AList.update (prop_name cfg (u_key cfg (Some y))) y x0)"
    using Cons.prems by (auto simp: keyed_def update_conv')
  then show ?case using Cons.IH by simp
qed

lemma restructure_keyed: "keyed cfg (restructure cfg recs)"
  unfolding restructure_def by (rule fold_restructure_keyed) (simp add: keyed_def)



lemma reconcile_present:
  assumes L: "value_local s = Some L" and S: "value_server s = Some S"
    and x: "map_of x (prop_name cfg K) = Some y"
    and r: "reconcile_key cfg x K (ck, c, s) = (ck', c', s')"
  shows "\<exists>c0. hnv_post cfg y ck s c0 ck' s' \<and> c' = (c \<or> c0)"
proof -
  obtain c0 ck0 s0 where h: "u_handle_new_val cfg y ck s = (c0, ck0, s0)"
    by (metis prod_cases3)
  from r x h have "ck' = ck0" "s' = s0" "c' = (c \<or> c0)"
    by (simp_all add: reconcile_key_def)
  with hnv_spec [OF L S h] show ?thesis by blast
qed

lemma reconcile_absent:
  assumes L: "value_local s = Some L" and S: "value_server s = Some S"
    and x: "map_of x (prop_name cfg K) = None"
    and r: "reconcile_key cfg x K (ck, c, s) = (ck', c', s')"
  shows "absent_post K ck c s ck' c' s'"
proof (cases "map_of L K")
  case None
  with r x L S show ?thesis
    by (auto simp: absent_post_def reconcile_key_def lget_def)
next
  case (Some l)
  have eq: "equals_opt l (map_of S K) \<longleftrightarrow> sget s K = Some (map_of l)"
    by (simp add: equals_opt_iff sget_def S)
  from r x L S Some show ?thesis
    by (auto simp: absent_post_def reconcile_key_def lget_def eq sget_def delete_conv'
        fun_eq_iff split: if_splits)
qed

lemma add_new_spec:
  assumes L: "value_local s = Some L"
    and r: "add_new (p, val) (ck, s) = (ck', s')"
  shows "add_new_post p val ck s ck' s'"
  using assms
  by (auto simp: add_new_post_def add_new_def lget_def sget_def update_conv' fun_eq_iff
      split: if_splits)

lemma key_inv_step:
  assumes kx: "keyed cfg x" and xk: "map_of x (prop_name cfg k) = Some n"
    and key: "u_key cfg (Some n) = k"
    and inv: "key_inv k n l srv0 st tr0 v c s"
    and r: "reconcile_key cfg x K (ck, c, s) = (ck', c', s')"
  shows "key_inv k n l srv0 st tr0 (v \<or> K = k) c' s'"
proof -
  let ?N = "map_of n"
  let ?m = "merged ?N srv0 l"
  from inv obtain L S where LS: "value_local s = Some L" "value_server s = Some S"
    by (auto simp: key_inv_def)
  from inv obtain es0 where es0: "trace s = tr0 @ es0" by (auto simp: key_inv_def)
  from inv have st: "state s = st" by (simp add: key_inv_def)
  show ?thesis
  proof (cases "map_of x (prop_name cfg K)")
    case None
    then have Kk: "K \<noteq> k" using xk by auto
    from reconcile_absent [OF LS None r] have ap: "absent_post K ck c s ck' c' s'" .
    show ?thesis
    proof (cases "lget s K")
      case None
      with ap inv Kk show ?thesis by (simp add: absent_post_def key_inv_def)
    next
      case (Some l0)
      show ?thesis
      proof (cases "sget s K = Some l0")
        case True
        with ap Some have "lget s' = (lget s)(K := None)" "sget s' = sget s" "c' = c"
          "trace s' = trace s" "state s' = state s"
          "value_local s' \<noteq> None" "value_server s' \<noteq> None"
          by (simp_all add: absent_post_def)
        with inv Kk show ?thesis by (simp add: key_inv_def)
      next
        case False
        with ap Some have "s' = s" "c'" by (simp_all add: absent_post_def)
        with inv Kk show ?thesis by (auto simp: key_inv_def)
      qed
    qed
  next
    case (Some y)
    from reconcile_present [OF LS Some r] obtain c0 where
      post: "hnv_post cfg y ck s c0 ck' s'" and c': "c' = (c \<or> c0)" by blast
    let ?ky = "u_key cfg (Some y)"
    from post have l': "lget s' = (lget s)(?ky := Some (case lget s ?ky of None \<Rightarrow> map_of y
                  | Some l0 \<Rightarrow> merged (map_of y) (sget s ?ky) l0))"
      and s': "sget s' = (sget s)(?ky := Some (map_of y))"
      and c0: "c0 \<longleftrightarrow> lget s ?ky \<noteq> None \<and> (case lget s ?ky of None \<Rightarrow> map_of y
                  | Some l0 \<Rightarrow> merged (map_of y) (sget s ?ky) l0) \<noteq> map_of y"
      and vs: "value_local s' \<noteq> None" "value_server s' \<noteq> None" "state s' = state s"
      by (simp_all add: hnv_post_def Let_def)
    from post obtain lc where lc: "map_of lc = (case lget s ?ky of None \<Rightarrow> map_of y
                  | Some l0 \<Rightarrow> merged (map_of y) (sget s ?ky) l0)"
      and tr: "trace s' = trace s @ (if c0 then [Conflict y lc] else [])"
      unfolding hnv_post_def Let_def by blast
    have tr': "trace s' = tr0 @ (es0 @ (if c0 then [Conflict y lc] else []))"
      using tr es0 by simp
    have pk: "prop_name cfg ?ky = prop_name cfg K"
      using kx Some by (simp add: keyed_def)
    show ?thesis
    proof (cases "?ky = k")
      case False
      have Kk: "K \<noteq> k" using pk False xk Some key by auto
      have lk: "lget s' k = lget s k" "sget s' k = sget s k"
        using l' s' False by simp_all
      from inv show ?thesis
        unfolding key_inv_def lk tr' es0
        using vs st c' Kk
        by auto
    next
      case True
      have yn: "y = n" using pk True xk Some by simp
      from inv have d: "(lget s k = Some l \<and> sget s k = srv0) \<or>
          (lget s k = Some ?m \<and> sget s k = Some ?N)"
        by (auto simp: key_inv_def)
      have mm: "(case lget s k of None \<Rightarrow> ?N | Some l0 \<Rightarrow> merged ?N (sget s k) l0) = ?m"
        using d by auto
      have lk: "lget s' k = Some ?m" "sget s' k = Some ?N"
        using l' [unfolded yn key] s' [unfolded yn key] mm by simp_all
      have c0': "c0 \<longleftrightarrow> ?m \<noteq> ?N"
        using c0 [unfolded yn key] mm d by auto
      have "?m \<noteq> ?N \<Longrightarrow>
          \<exists>l'. map_of l' = ?m \<and> Conflict n l' \<in> set (drop (length tr0) (trace s'))"
      proof -
        assume "?m \<noteq> ?N"
        then have "c0" using c0' by simp
        with tr' have "trace s' = tr0 @ (es0 @ [Conflict y lc])" by simp
        moreover have "map_of lc = ?m" using lc [unfolded yn key] mm by simp
        ultimately show ?thesis using yn by (intro exI [of _ lc]) simp
      qed
      then show ?thesis
        unfolding key_inv_def using lk vs st tr' c' c0' by auto
    qed
  qed
qed

lemma key_inv_fold:
  assumes kx: "keyed cfg x" and xk: "map_of x (prop_name cfg k) = Some n"
    and key: "u_key cfg (Some n) = k"
  shows "key_inv k n l srv0 st tr0 v c s \<Longrightarrow>
         fold (reconcile_key cfg x) ks (ck, c, s) = (ck', c', s') \<Longrightarrow>
         key_inv k n l srv0 st tr0 (v \<or> k \<in> set ks) c' s'"
proof (induction ks arbitrary: v ck c s)
  case Nil
  then show ?case by simp
next
  case (Cons K ks)
  obtain ck1 c1 s1 where r1: "reconcile_key cfg x K (ck, c, s) = (ck1, c1, s1)"
    by (metis prod_cases3)
  from key_inv_step [OF kx xk key Cons.prems(1) r1]
  have i1: "key_inv k n l srv0 st tr0 (v \<or> K = k) c1 s1" .
  from Cons.prems(2) r1 have "fold (reconcile_key cfg x) ks (ck1, c1, s1) = (ck', c', s')"
    by simp
  from Cons.IH [OF i1 this] show ?case by (simp add: disj_ac eq_commute)
qed

lemma add_new_fold:
  "value_local s \<noteq> None \<Longrightarrow> fold add_new x (ck, s) = (ck', s') \<Longrightarrow>
     sget s' = sget s \<and> trace s' = trace s \<and> state s' = state s \<and>
     value_server s' = value_server s \<and> value_local s' \<noteq> None \<and>
     (\<forall>K. lget s K \<noteq> None \<longrightarrow> lget s' K = lget s K) \<and>
     (\<forall>(p, val) \<in> set x. lget s' (KStr p) \<noteq> None) \<and>
     (\<exists>zs. ck' = ck @ zs) \<and> (ck' = ck \<longrightarrow> lget s' = lget s)"
proof (induction x arbitrary: ck s)
  case Nil
  then show ?case by simp
next
  case (Cons e x)
  obtain p val where e: "e = (p, val)" by (cases e)
  obtain ck1 s1 where r1: "add_new (p, val) (ck, s) = (ck1, s1)" by (metis prod.exhaust)
  from Cons.prems(1) obtain L where L: "value_local s = Some L" by auto
  from add_new_spec [OF L r1] have post: "add_new_post p val ck s ck1 s1" .
  then have v1: "value_local s1 \<noteq> None" by (simp add: add_new_post_def)
  from Cons.prems(2) e r1 have f: "fold add_new x (ck1, s1) = (ck', s')" by simp
  note ih = Cons.IH [OF v1 f]
  from post have a: "sget s1 = sget s" "trace s1 = trace s" "state s1 = state s"
    "value_server s1 = value_server s"
    and b: "\<forall>K. lget s K \<noteq> None \<longrightarrow> lget s1 K = lget s K"
    and c: "lget s1 (KStr p) \<noteq> None"
    and d: "\<exists>zs. ck1 = ck @ zs" "ck1 = ck \<longrightarrow> lget s1 = lget s"
    by (auto simp: add_new_post_def split: if_splits)
  from ih a have 1: "sget s' = sget s \<and> trace s' = trace s \<and> state s' = state s \<and>
     value_server s' = value_server s \<and> value_local s' \<noteq> None" by simp
  from ih b have 2: "\<forall>K. lget s K \<noteq> None \<longrightarrow> lget s' K = lget s K" by metis
  from ih c have 3: "\<forall>(p, val) \<in> set (e # x). lget s' (KStr p) \<noteq> None"
    by (auto simp: e)
  from ih d have 4: "\<exists>zs. ck' = ck @ zs" by auto
  from ih d have 5: "ck' = ck \<longrightarrow> lget s' = lget s" by auto
  from 1 2 3 4 5 show ?case by blast
qed

lemma update_all_unfold:
  assumes "state s \<noteq> Closed" "value_local s = Some L" "value_server s = Some S"
    and "fold (reconcile_key cfg (restructure cfg recs)) (map fst (entries L))
           ([], False, emit Before_change s) = (ck1, c1, s1)"
    and "fold add_new (restructure cfg recs) (ck1, s1) = (ck2, s2)"
  shows "update_all_merge cfg (restructure cfg recs) (emit Before_change s) =
           (ck2, c1, False, s2)"
    and "u_update_all cfg (Some recs) s =
           (let s3 = (if ck2 \<noteq> []
                      then emit_change cfg ck2
                             (s2\<lparr>value_server := Some (fromJS (restructure cfg recs))\<rparr>)
                      else s2)
            in if c1 then save None s3 else s3)"
proof -
  show m: "update_all_merge cfg (restructure cfg recs) (emit Before_change s) =
           (ck2, c1, False, s2)"
    using assms by (simp add: update_all_merge_def emit_def)
  show "u_update_all cfg (Some recs) s =
           (let s3 = (if ck2 \<noteq> []
                      then emit_change cfg ck2
                             (s2\<lparr>value_server := Some (fromJS (restructure cfg recs))\<rparr>)
                      else s2)
            in if c1 then save None s3 else s3)"
    using assms(1) by (simp add: u_update_all_def m Let_def)
qed

lemma mem_entries_keys: "map_of L k \<noteq> None \<Longrightarrow> k \<in> set (map fst (entries L))"
  by (metis map_of_entries map_of_eq_None_iff set_map)

subsection \<open>Applying a snapshot twice\<close>

lemma strkeyed_keyed: "strkeyed cfg x \<Longrightarrow> keyed cfg x"
  by (auto simp: strkeyed_def keyed_def)










lemma lget_tables:
  "value_local s' = value_local s \<Longrightarrow> lget s' = lget s"
  "value_server s' = value_server s \<Longrightarrow> sget s' = sget s"
  by (rule ext, simp add: lget_def sget_def)+





lemma lget_server_update [simp]: "lget (s\<lparr>value_server := v\<rparr>) = lget s"
  by (rule lget_tables) simp


section \<open>The claims\<close>

subsection \<open>C1: the three-way merge\<close>

text \<open>
  Claim C1. Let the key \<open>k\<close> have the local record \<open>l\<close> and let the record \<open>n\<close> with this key
  arrive from the server. \<^verbatim>\<open>_handle_new_val\<close> makes the local record \<open>merged n srv l\<close>, where
  \<open>srv\<close> is the last recorded server value: a field takes the value (or the absence) it
  has in \<open>n\<close> where that differs from \<open>srv\<close>, and keeps its local value otherwise. The
  same holds for the key after \<^verbatim>\<open>_update_all\<close> has applied a snapshot that holds \<open>n\<close>. If
  a field \<open>f\<close> has in \<open>n\<close> the last server value and locally another one, the local value
  of \<open>f\<close> is kept, the conflict event is emitted and \<^verbatim>\<open>_update_all\<close> ends with the call of
  \<^verbatim>\<open>save\<close>, which in the connected state hands the save to \<^verbatim>\<open>misc.async_debounce\<close>.
\<close>

theorem three_way_merge:
  assumes open_: "state s \<noteq> Closed"
    and srv: "value_server s \<noteq> None"
    and loc: "lget s k = Some l"
    and key: "u_key cfg (Some n) = k"
  shows "(\<forall>ck. case u_handle_new_val cfg n ck s of
            (c, ck', s') \<Rightarrow> lget s' k = Some (merged (map_of n) (sget s k) l)) \<and>
         (\<forall>recs. map_of (restructure cfg recs) (prop_name cfg k) = Some n \<longrightarrow>
            lget (u_update_all cfg (Some recs) s) k = Some (merged (map_of n) (sget s k) l) \<and>
            (\<forall>f. map_of n f = field_of (sget s k) f \<and> l f \<noteq> map_of n f \<longrightarrow>
               field_of (lget (u_update_all cfg (Some recs) s) k) f = l f \<and>
               (\<exists>s3 es l'. u_update_all cfg (Some recs) s = save None s3 \<and>
                           trace s3 = trace s @ es \<and> Conflict n l' \<in> set es \<and>
                           state s3 = state s \<and> value_local s3 \<noteq> None \<and>
                           value_server s3 \<noteq> None) \<and>
               (state s = Connected \<longrightarrow>
                  (\<exists>es l'. trace (u_update_all cfg (Some recs) s) =
                              trace s @ es @ [Async_debounce None] \<and>
                           Conflict n l' \<in> set es))))"
proof (intro conjI allI impI)
  let ?N = "map_of n"
  let ?m = "merged ?N (sget s k) l"
  from loc obtain L where L: "value_local s = Some L"
    by (auto simp: lget_def split: option.splits)
  from srv obtain S where S: "value_server s = Some S" by auto
  {
    fix ck
    obtain c ck' s' where r: "u_handle_new_val cfg n ck s = (c, ck', s')"
      by (metis prod_cases3)
    from hnv_spec [OF L S r] have "lget s' k = Some ?m"
      by (simp add: hnv_post_def Let_def key loc)
    with r show "case u_handle_new_val cfg n ck s of
            (c, ck', s') \<Rightarrow> lget s' k = Some ?m" by simp
  }
  fix recs
  assume xk: "map_of (restructure cfg recs) (prop_name cfg k) = Some n"
  let ?x = "restructure cfg recs"
  let ?s0 = "emit Before_change s"
  let ?s' = "u_update_all cfg (Some recs) s"
  obtain ck1 c1 s1 where f1:
    "fold (reconcile_key cfg ?x) (map fst (entries L)) ([], False, ?s0) = (ck1, c1, s1)"
    by (metis prod_cases3)
  obtain ck2 s2 where f2: "fold add_new ?x (ck1, s1) = (ck2, s2)" by (metis prod.exhaust)
  have g0: "lget ?s0 = lget s" "sget ?s0 = sget s"
    by (rule ext, simp add: lget_def sget_def emit_def)+
  have i0: "key_inv k n l (sget s k) (state s) (trace s) False False ?s0"
    using L S loc by (simp add: key_inv_def g0) (simp add: emit_def)
  have kin: "k \<in> set (map fst (entries L))"
    using loc L by (intro mem_entries_keys) (auto simp: lget_def)
  from key_inv_fold [OF restructure_keyed xk key i0 f1] kin
  have i1: "key_inv k n l (sget s k) (state s) (trace s) True c1 s1" by simp
  then have v1: "value_local s1 \<noteq> None" by (simp add: key_inv_def)
  note an = add_new_fold [OF v1 f2]
  from i1 have l1: "lget s1 k = Some ?m" by (simp add: key_inv_def)
  with an have l2: "lget s2 k = Some ?m" by simp
  let ?s3 = "if ck2 \<noteq> [] then emit_change cfg ck2 (s2\<lparr>value_server := Some (fromJS ?x)\<rparr>) else s2"
  have u: "?s' = (if c1 then save None ?s3 else ?s3)"
    using update_all_unfold(2) [OF open_ L S f1 f2] by (simp add: Let_def)
  have l3: "lget ?s3 k = Some ?m"
    using l2 by (simp add: lget_def emit_change_tables)
  show lfin: "lget ?s' k = Some ?m"
    using u l3 by simp
  fix f
  assume a: "?N f = field_of (sget s k) f \<and> l f \<noteq> ?N f"
  then have mf: "?m f = l f" by (simp add: merged_def)
  with a have mN: "?m \<noteq> ?N" by auto
  from lfin mf show "field_of (lget ?s' k) f = l f" by (simp add: field_of_def)
  from i1 mN have c1: c1
    and ev: "\<exists>l'. Conflict n l' \<in> set (drop (length (trace s)) (trace s1))"
    by (auto simp: key_inv_def)
  from i1 obtain es1 where es1: "trace s1 = trace s @ es1" by (auto simp: key_inv_def)
  from ev es1 obtain l' where l': "Conflict n l' \<in> set es1" by auto
  from an es1 have t2: "trace s2 = trace s @ es1" by simp
  obtain esc where esc: "trace ?s3 = trace s2 @ esc"
    using emit_change_trace [of cfg ck2 "s2\<lparr>value_server := Some (fromJS ?x)\<rparr>"]
    by (cases "ck2 = []") auto
  have t3: "trace ?s3 = trace s @ (es1 @ esc)" using esc t2 by simp
  have st3: "state ?s3 = state s" "value_local ?s3 \<noteq> None" "value_server ?s3 \<noteq> None"
    using i1 an by (auto simp: key_inv_def emit_change_tables)
  have us: "?s' = save None ?s3" using u c1 by simp
  from us t3 l' st3
  show "\<exists>s3 es l'. ?s' = save None s3 \<and> trace s3 = trace s @ es \<and> Conflict n l' \<in> set es \<and>
          state s3 = state s \<and> value_local s3 \<noteq> None \<and> value_server s3 \<noteq> None"
    by (intro exI [of _ ?s3] exI [of _ "es1 @ esc"] exI [of _ l']) simp
  assume con: "state s = Connected"
  have "?s' = emit (Async_debounce None) ?s3"
    using us save_connected [OF _ st3(2,3)] st3(1) con by simp
  then have "trace ?s' = trace s @ (es1 @ esc) @ [Async_debounce None]"
    using t3 by (simp add: emit_def)
  with l' show "\<exists>es l'. trace ?s' = trace s @ es @ [Async_debounce None] \<and> Conflict n l' \<in> set es"
    by (intro exI [of _ "es1 @ esc"] exI [of _ l']) simp
qed

theorem three_way_merge_witness:
  "field_of (lget (u_update_all example_config
                     (Some [[(''id'', JStr ''k''), (''f'', JStr ''C''), (''g'', JStr ''G'')]])
                     example_table) (KStr ''k'')) ''f'' = Some (JStr ''A'') \<and>
   field_of (lget (u_update_all example_config
                     (Some [[(''id'', JStr ''k''), (''f'', JStr ''C''), (''g'', JStr ''G'')]])
                     example_table) (KStr ''k'')) ''g'' = Some (JStr ''G'') \<and>
   (\<exists>es l'. trace (u_update_all example_config
                      (Some [[(''id'', JStr ''k''), (''f'', JStr ''C''), (''g'', JStr ''G'')]])
                      example_table) = trace example_table @ es @ [Async_debounce None] \<and>
            Conflict [(''id'', JStr ''k''), (''f'', JStr ''C''), (''g'', JStr ''G'')] l' \<in> set es)"
proof -
  let ?n = "[(''id'', JStr ''k''), (''f'', JStr ''C''), (''g'', JStr ''G'')]"
  let ?l = "map_of [(''id'', JStr ''k''), (''f'', JStr ''A'')]"
  have h1: "state example_table \<noteq> Closed" by (simp add: example_table_def)
  have h2: "value_server example_table \<noteq> None" by (simp add: example_table_def)
  have h3: "lget example_table (KStr ''k'') = Some ?l"
    by (simp add: example_table_def lget_def)
  have h4: "u_key example_config (Some ?n) = KStr ''k''"
    by (simp add: example_config_def u_key_def)
  have x: "map_of (restructure example_config [?n]) (prop_name example_config (KStr ''k'')) = Some ?n"
    by (simp add: restructure_def h4)
  have sg: "sget example_table (KStr ''k'') = Some (map_of [(''id'', JStr ''k''), (''f'', JStr ''C'')])"
    by (simp add: example_table_def sget_def)
  from three_way_merge [OF h1 h2 h3 h4] x
  have m: "lget (u_update_all example_config (Some [?n]) example_table) (KStr ''k'') =
             Some (merged (map_of ?n) (sget example_table (KStr ''k'')) ?l)"
    and f: "\<forall>f. map_of ?n f = field_of (sget example_table (KStr ''k'')) f \<and> ?l f \<noteq> map_of ?n f \<longrightarrow>
               field_of (lget (u_update_all example_config (Some [?n]) example_table) (KStr ''k'')) f = ?l f \<and>
               (state example_table = Connected \<longrightarrow>
               (\<exists>es l'. trace (u_update_all example_config (Some [?n]) example_table) =
                           trace example_table @ es @ [Async_debounce None] \<and>
                        Conflict ?n l' \<in> set es))"
    by blast+
  have pre: "map_of ?n ''f'' = field_of (sget example_table (KStr ''k'')) ''f'' \<and>
               ?l ''f'' \<noteq> map_of ?n ''f''"
    by (simp add: sg field_of_def)
  have con: "state example_table = Connected" by (simp add: example_table_def)
  from f pre con have r: "field_of (lget (u_update_all example_config (Some [?n]) example_table) (KStr ''k'')) ''f'' = ?l ''f'' \<and>
               (\<exists>es l'. trace (u_update_all example_config (Some [?n]) example_table) =
                           trace example_table @ es @ [Async_debounce None] \<and>
                        Conflict ?n l' \<in> set es)"
    by blast
  have g: "field_of (lget (u_update_all example_config (Some [?n]) example_table) (KStr ''k'')) ''g'' = Some (JStr ''G'')"
    by (simp add: m sg field_of_def merged_def)
  from r g show ?thesis by simp
qed

subsection \<open>C2: the server changes a field that has an unsaved local value\<close>

text \<open>
  Claim C2 says that a conflict event with the local value \<open>A\<close> as \<^verbatim>\<open>old_val\<close> is emitted and
  a save is requested when the local value of \<open>f\<close> is \<open>A\<close>, the last server value is \<open>C\<close> and
  the changefeed delivers \<open>B\<close>. In the code the field has changed between the last server
  value and the new one, so the new value is written over the local one: the local
  record becomes the server's, a change is emitted, and there is neither a conflict
  event nor a save.
\<close>

theorem conflict_counterexample:
  "u_update_change example_config (Some [(''id'', JStr ''k''), (''f'', JStr ''B'')], None)
     example_table =
   example_table
     \<lparr>value_local := Some [(KStr ''k'', [(''id'', JStr ''k''), (''f'', JStr ''B'')])],
      value_server := Some [(KStr ''k'', [(''id'', JStr ''k''), (''f'', JStr ''B'')])],
      trace := [Before_change, Change [KStr ''k'']]\<rparr>"
  by (simp add: u_update_change_def u_handle_new_val_def example_table_def example_config_def
      u_key_def rec_equals_def merge_record_def apply_changed_def drop_removed_def
      server_get_def entries_def emit_change_def emit_def Let_def)

text \<open>
  Claim C2 as amended. In that scenario the update replaces the local value of \<open>f\<close> by \<open>B\<close>
  and the key is given to the listeners of \<^verbatim>\<open>change\<close>. A conflict event is emitted, and a
  save of the table is requested, exactly when the merged local record still differs
  from the record received, that is, when the local record has an edit in a field that
  the server did not change; the event then carries the record received as \<^verbatim>\<open>new_val\<close>
  and the merged local record, in which \<open>f\<close> is \<open>B\<close>, as \<^verbatim>\<open>old_val\<close>.
\<close>

theorem upstream_wins_on_changed_field:
  assumes connected: "state s = Connected"
    and srv: "value_server s \<noteq> None"
    and key: "u_key cfg (Some n) = k"
    and same_key: "old_val = None \<or> u_key cfg old_val = k"
    and loc: "lget s k = Some l" "l f = Some a"
    and last: "field_of (sget s k) f = Some c"
    and new: "map_of n f = Some b"
    and differ: "a \<noteq> b" "b \<noteq> c"
  shows "lget (u_update_change cfg (Some n, old_val) s) k = Some (merged (map_of n) (sget s k) l) \<and>
         merged (map_of n) (sget s k) l f = Some b \<and>
         sget (u_update_change cfg (Some n, old_val) s) k = Some (map_of n) \<and>
         notified cfg k s (u_update_change cfg (Some n, old_val) s) \<and>
         (\<exists>es. trace (u_update_change cfg (Some n, old_val) s) = trace s @ es \<and>
            (\<forall>nv ov. Conflict nv ov \<in> set es \<longrightarrow>
               nv = n \<and> map_of ov = merged (map_of n) (sget s k) l) \<and>
            ((\<exists>nv ov. Conflict nv ov \<in> set es) \<longleftrightarrow>
               merged (map_of n) (sget s k) l \<noteq> map_of n) \<and>
            (Async_debounce None \<in> set es \<longleftrightarrow>
               merged (map_of n) (sget s k) l \<noteq> map_of n))"
proof -
  let ?m = "merged (map_of n) (sget s k) l"
  let ?s0 = "emit Before_change s"
  from loc(1) have lv: "value_local s \<noteq> None" by (auto simp: lget_def split: option.splits)
  from lv srv obtain L S where LS: "value_local ?s0 = Some L" "value_server ?s0 = Some S"
    by (auto simp: emit_def)
  obtain cf ck s1 where r: "u_handle_new_val cfg n [] ?s0 = (cf, ck, s1)"
    by (metis prod_cases3)
  have g0: "lget ?s0 = lget s" "sget ?s0 = sget s"
    by (rule ext, simp add: lget_def sget_def emit_def)+
  have mf: "?m f = Some b"
    using new last differ by (simp add: merged_def)
  have ml: "?m \<noteq> l" using mf loc(2) differ by auto
  from hnv_spec [OF LS r] have post: "hnv_post cfg n [] ?s0 cf ck s1" .
  from post have l1: "lget s1 = (lget s)(k := Some ?m)"
    and s1: "sget s1 = (sget s)(k := Some (map_of n))"
    and cf: "cf \<longleftrightarrow> ?m \<noteq> map_of n"
    and ck: "ck = [k]"
    and v1: "value_local s1 \<noteq> None" "value_server s1 \<noteq> None"
    and st1: "state s1 = Connected"
    using ml by (simp_all add: hnv_post_def Let_def key g0 loc connected)
  from post have "\<exists>l'. map_of l' = ?m \<and>
      trace s1 = trace ?s0 @ (if cf then [Conflict n l'] else [])"
    unfolding hnv_post_def Let_def key g0 loc by (elim conjE) simp
  then obtain l' where l': "map_of l' = ?m"
    and tr0: "trace s1 = trace ?s0 @ (if cf then [Conflict n l'] else [])"
    by blast
  have tr1: "trace s1 = trace s @ [Before_change] @ (if cf then [Conflict n l'] else [])"
    using tr0 by (simp add: emit_def)
  let ?s3 = "emit_change cfg [k] s1"
  obtain esc where esc: "trace ?s3 = trace s1 @ esc" "\<forall>e \<in> set esc. \<exists>ks'. e = Change ks'"
    using emit_change_trace [of cfg "[k]" s1] by blast
  have n3: "notified cfg k s1 ?s3" by (rule emit_change_notified) simp
  have u: "u_update_change cfg (Some n, old_val) s = (if cf then save None ?s3 else ?s3)"
    using update_change_same_key [OF _ lv srv r] same_key connected ck key by simp
  have sv: "save None ?s3 = emit (Async_debounce None) ?s3"
    by (rule save_connected) (simp_all add: emit_change_tables st1 v1)
  have tr1': "trace s1 = trace s @ ([Before_change] @ (if cf then [Conflict n l'] else []))"
    using tr1 by simp
  show ?thesis
  proof (cases cf)
    case True
    have tr: "trace (emit (Async_debounce None) ?s3) =
        trace s @ ([Before_change, Conflict n l'] @ esc @ [Async_debounce None])"
      using tr1 esc(1) True by (simp add: emit_def)
    have nt: "notified cfg k s (emit (Async_debounce None) ?s3)"
      by (rule notified_compose [OF tr1' n3]) (simp_all add: emit_def)
    have "lget (emit (Async_debounce None) ?s3) = lget s1"
         "sget (emit (Async_debounce None) ?s3) = sget s1"
      by (rule ext, simp add: lget_def sget_def emit_def emit_change_tables)+
    with True u sv l1 s1 mf nt cf tr esc(2) l' show ?thesis
      by (auto simp del: append_Cons)
  next
    case False
    have tr: "trace ?s3 = trace s @ ([Before_change] @ esc)"
      using tr1 esc(1) False by simp
    have nt: "notified cfg k s ?s3"
      by (rule notified_compose [OF tr1' n3]) simp_all
    from False u l1 s1 mf nt cf tr esc(2) show ?thesis
      by (auto simp del: append_Cons)
  qed
qed

theorem upstream_wins_on_changed_field_witness:
  "field_of (lget (u_update_change example_config
                     (Some [(''id'', JStr ''k''), (''f'', JStr ''B'')], None) example_table)
               (KStr ''k'')) ''f'' = Some (JStr ''B'') \<and>
   sget (u_update_change example_config
           (Some [(''id'', JStr ''k''), (''f'', JStr ''B'')], None) example_table)
     (KStr ''k'') = Some (map_of [(''id'', JStr ''k''), (''f'', JStr ''B'')]) \<and>
   notified example_config (KStr ''k'') example_table
     (u_update_change example_config
        (Some [(''id'', JStr ''k''), (''f'', JStr ''B'')], None) example_table)"
  using upstream_wins_on_changed_field [where s = example_table and cfg = example_config
      and n = "[(''id'', JStr ''k''), (''f'', JStr ''B'')]" and k = "KStr ''k''"
      and old_val = None and l = "map_of [(''id'', JStr ''k''), (''f'', JStr ''A'')]"
      and f = "''f''" and a = "JStr ''A''" and b = "JStr ''B''" and c = "JStr ''C''"]
  by (simp add: example_table_def example_config_def u_key_def lget_def sget_def field_of_def)

subsection \<open>C3: a save that reports success\<close>

text \<open>
  Claim C3 says that no unsaved change remains when the callback of a save reports
  success. On the small table, whose local value of \<open>f\<close> the server does not have, \<^verbatim>\<open>_save\<close>
  reports success at once: \<^verbatim>\<open>_changes\<close> reads the tables as \<^verbatim>\<open>_value_server\<close> and
  \<^verbatim>\<open>_value_local\<close>, which no code assigns, and returns \<^verbatim>\<open>undefined\<close>; so \<^verbatim>\<open>__save\<close> finds no
  changed key, sends no write and calls its callback without an error. The state is the
  one before the call but for the invocation of the callback, and the local value of \<open>f\<close>
  is still not the server's. The theorem runs the code on this input.
\<close>

theorem save_success_leaves_unsaved_change:
  "u_save example_config (Some (User_cb 0)) example_table =
     Inr (example_table\<lparr>trace := [Called 0 None]\<rparr>) \<and>
   field_of (lget example_table (KStr ''k'')) ''f'' = Some (JStr ''A'') \<and>
   field_of (sget example_table (KStr ''k'')) ''f'' = Some (JStr ''C'')"
  by (simp add: u_save_def uu_save_def u_changes_def changed_entries_def example_table_def
      example_config_def emit_def lget_def sget_def field_of_def)

subsection \<open>C4: two requests to save, one after the other\<close>


subsection \<open>C5: applying the same snapshot twice\<close>




subsection \<open>C6: the first connection to an empty table\<close>

text \<open>
  Claim C6. On the first connection (one of the two values is not set yet) an empty
  snapshot is adopted as both values and exactly one change event with the empty list of
  keys is emitted: at once when change events are not throttled; and with throttling,
  when no key is waiting to be emitted, at once if the throttle is idle and at the end
  of the waiting period otherwise, since the throttled function emits also when it has
  no keys.
\<close>

theorem first_connection_empty_snapshot:
  assumes open_: "state s \<noteq> Closed"
    and first: "value_local s = None \<or> value_server s = None"
  shows "value_local (u_update_all cfg (Some []) s) = Some [] \<and>
         value_server (u_update_all cfg (Some []) s) = Some [] \<and>
         (throttle_changes cfg = None \<or> throttle_changes cfg = Some 0 \<longrightarrow>
            trace (u_update_all cfg (Some []) s) = trace s @ [Before_change, Change []]) \<and>
         (\<forall>w. throttle_changes cfg = Some w \<and> 0 < w \<and> all_changed_keys s = [] \<longrightarrow>
            (throttle_idle s \<longrightarrow>
               trace (u_update_all cfg (Some []) s) = trace s @ [Before_change, Change []]) \<and>
            (\<not> throttle_idle s \<longrightarrow>
               trace (u_update_all cfg (Some []) s) = trace s @ [Before_change] \<and>
               trace (throttle_wait_over (u_update_all cfg (Some []) s)) =
                 trace s @ [Before_change, Change []]))"
  unfolding update_all_first_empty [OF open_ first]
  by (auto simp: emit_change_def emit_def throttled_emit_def throttle_wait_over_def
      do_emit_changes_def split: option.splits)

theorem first_connection_empty_snapshot_witness:
  "trace (u_update_all example_config (Some []) fresh_table) = [Before_change, Change []] \<and>
   trace (u_update_all (example_config\<lparr>throttle_changes := Some 500\<rparr>) (Some []) fresh_table) =
     [Before_change, Change []] \<and>
   trace (throttle_wait_over
            (u_update_all (example_config\<lparr>throttle_changes := Some 500\<rparr>) (Some [])
               (fresh_table\<lparr>throttle_idle := False\<rparr>))) = [Before_change, Change []]"
  using first_connection_empty_snapshot [of fresh_table example_config]
    first_connection_empty_snapshot [of fresh_table "example_config\<lparr>throttle_changes := Some 500\<rparr>"]
    first_connection_empty_snapshot [of "fresh_table\<lparr>throttle_idle := False\<rparr>"
      "example_config\<lparr>throttle_changes := Some 500\<rparr>"]
  by (simp add: fresh_table_def example_config_def)

subsection \<open>C7: the fields of an outbound record\<close>




subsection \<open>C8: a second request with the same signature\<close>

text \<open>
  Claim C8 says that a second request with the signature of a connected instance gets
  the same instance, counts one more reference and receives a \<^verbatim>\<open>connected\<close> notification
  on the next tick. \<^verbatim>\<open>sync_table\<close> returns the instance and counts the reference, but it
  tests the state as \<^verbatim>\<open>S._state\<close>, which no code assigns, while the class keeps the state
  in \<^verbatim>\<open>state\<close>: nothing is handed to \<^verbatim>\<open>async.nextTick\<close> and no notification is emitted.
  The theorem runs the code on the registry that holds the small table, which is
  connected.
\<close>

theorem second_request_not_notified:
  "sync_table (\<lambda>v. ''json'') (\<lambda>r. Inr example_table) example_request example_world =
     Inr (0, example_world\<lparr>heap := [(0, example_table\<lparr>reference_count := Some 2\<rparr>)]\<rparr>) \<and>
   state example_table = Connected \<and>
   next_tick (example_world\<lparr>heap := [(0, example_table\<lparr>reference_count := Some 2\<rparr>)]\<rparr>) = [] \<and>
   run_next_tick (example_world\<lparr>heap := [(0, example_table\<lparr>reference_count := Some 2\<rparr>)]\<rparr>) =
     example_world\<lparr>heap := [(0, example_table\<lparr>reference_count := Some 2\<rparr>)]\<rparr>"
  by (simp add: sync_table_def run_next_tick_def example_world_def example_request_def
      example_table_def cache_key_def)

subsection \<open>C9: a changefeed record whose key changed deletes the old key\<close>



subsection \<open>C10: a \<^verbatim>\<open>set\<close> that changes nothing\<close>

text \<open>
  Claim C10 says that a call of \<^verbatim>\<open>set\<close> whose merged value equals the current local
  record invokes the callback without an error and returns that value. On the small
  table, a call with the fields the local record already has throws a \<^verbatim>\<open>TypeError\<close>:
  \<^verbatim>\<open>set\<close> reads the schema as \<^verbatim>\<open>this.client_query\<close>, which no code assigns, while
  \<^verbatim>\<open>init_query\<close> stores it in \<^verbatim>\<open>_client_query\<close>; the callback is not called and nothing is
  returned. The theorem runs the code on this input.
\<close>

theorem set_unchanged_throws:
  "set_record example_config (JObj [(''id'', JStr ''k''), (''f'', JStr ''A'')])
     (Merge_name ''shallow'') (Some (User_cb 0)) example_table =
   Inl (''TypeError'', example_table)"
  by (simp add: set_record_def example_table_def)

end
